theory Spec2Isabelle
  imports Complex_Main "HOL-Library.Word"
begin

section \<open>Bytes, exceptions and \<open>struct.pack\<close>\<close>

text \<open>
  A Python \<open>bytes\<close> value is a list of 8-bit words. The type \<open>exn\<close> holds the instances
  of Python's \<open>Exception\<close> that the two modules raise themselves or receive from the
  libraries they call; \<open>EOFError\<close> is the one class that \<open>Connection.run\<close> catches apart
  from \<open>Exception\<close>. \<open>LibError\<close> stands for any other exception of a library.
\<close>

type_synonym byte = "8 word"
type_synonym bytes = "byte list"

datatype exn =
    EOFError
  | Exception string
  | ValueError string
  | StructError
  | AttributeError string
  | KeyError string
  | IndexError
  | TypeError string
  | AssertionError string
  | LibError string

text \<open>
  \<open>be_bytes k n\<close> is the big-endian form of \<open>n\<close> on \<open>k\<close> bytes and \<open>be_nat\<close> reads one
  back: \<open>struct.pack(">Q", n)\<close> and \<open>struct.unpack(">Q", b)[0]\<close> for \<open>k = 8\<close>. Packing
  raises \<open>struct.error\<close> outside \<open>0 .. 2^64 - 1\<close>. The format \<open>">24xQ"\<close> is 24 pad bytes
  (zero) followed by the same 8 bytes.
\<close>

fun be_bytes :: "nat \<Rightarrow> nat \<Rightarrow> bytes" where
  "be_bytes 0 n = []"
| "be_bytes (Suc k) n = be_bytes k (n div 256) @ [of_nat (n mod 256)]"

definition be_nat :: "bytes \<Rightarrow> nat" where
  "be_nat bs = foldl (\<lambda>a b. a * 256 + unat b) 0 bs"

definition pack_Q :: "int \<Rightarrow> exn + bytes" where
  "pack_Q v = (if 0 \<le> v \<and> v < 2 ^ 64 then Inr (be_bytes 8 (nat v)) else Inl StructError)"

definition pack_24xQ :: "int \<Rightarrow> exn + bytes" where
  "pack_24xQ v =
     (case pack_Q v of Inl e \<Rightarrow> Inl e | Inr q \<Rightarrow> Inr (replicate 24 0 @ q))"

definition unpack_Q :: "bytes \<Rightarrow> nat" where
  "unpack_Q length_data = be_nat length_data"

section \<open>The socket\<close>

text \<open>
  A connected stream socket, seen from one end: \<open>s_in\<close> are the bytes the peer delivers
  before the stream ends, \<open>s_out\<close> the bytes passed to \<open>sendall\<close> so far. \<open>recv k\<close> returns
  at most \<open>k\<close> bytes and at least one while the stream has data, and the empty string
  at its end; how many it returns is the network's choice, here the schedule
  \<open>s_chunks\<close> (one bound per call, none left meaning "all that was asked for").
\<close>

record sock =
  s_in :: bytes
  s_chunks :: "nat list"
  s_out :: bytes

definition recv :: "sock \<Rightarrow> nat \<Rightarrow> bytes \<times> sock" where
  "recv s k =
     (let m = (case s_chunks s of [] \<Rightarrow> k | c # _ \<Rightarrow> max 1 (min c k))
      in (take m (s_in s), s\<lparr>s_in := drop m (s_in s), s_chunks := tl (s_chunks s)\<rparr>))"

definition sendall :: "sock \<Rightarrow> bytes \<Rightarrow> sock" where
  "sendall s b = s\<lparr>s_out := s_out s @ b\<rparr>"

text \<open>
  \<open>socket_read_fixed\<close> (common.py, lines 90-98): the loop reads until \<open>n\<close> bytes have
  arrived and raises \<open>Exception("eof")\<close> on an empty \<open>recv\<close>. The third argument is the
  list \<open>ret\<close> of the chunks read so far.
\<close>

function socket_read_fixed :: "sock \<Rightarrow> nat \<Rightarrow> bytes list \<Rightarrow> (exn + bytes) \<times> sock" where
  "socket_read_fixed s n ret =
     (if n > 0 then
        (case recv s (min n 4096) of (data, s') \<Rightarrow>
           if data = [] then (Inl (Exception ''eof''), s')
           else socket_read_fixed s' (n - length data) (ret @ [data]))
      else (Inr (concat ret), s))"
  by pat_completeness auto
termination
  by (relation "measure (\<lambda>(s, n, ret). n)") auto

declare socket_read_fixed.simps [simp del]

section \<open>The encrypted port\<close>

text \<open>
  The box is PyNaCl's \<open>Box\<close>, a library object: its two methods are parameters of the
  model. Each takes the message (or ciphertext) and the nonce, and may raise.
\<close>

record box =
  box_encrypt :: "bytes \<Rightarrow> bytes \<Rightarrow> exn + bytes"
  box_decrypt :: "bytes \<Rightarrow> bytes \<Rightarrow> exn + bytes"

text \<open>
  \<open>p_calls\<close> is the trace of the calls the port has made to its box, each with the
  message (or ciphertext) and the nonce it passed. The source keeps no such list; the
  trace is what a statement about "the nonces used" speaks of.
\<close>

datatype box_call = Encrypt bytes bytes | Decrypt bytes bytes

record port =
  p_sock :: sock
  p_box :: box
  p_send_nonce :: int
  p_receive_nonce :: int
  p_calls :: "box_call list"

text \<open>\<open>Port.__init__\<close> (common.py, lines 110-114).\<close>

definition Port :: "sock \<Rightarrow> box \<Rightarrow> bool \<Rightarrow> port" where
  "Port sk bx is_client =
     \<lparr>p_sock = sk, p_box = bx,
      p_send_nonce = (if is_client then 0 else 1),
      p_receive_nonce = (if is_client then 1 else 0),
      p_calls = []\<rparr>"

text \<open>
  \<open>Port.send\<close> (lines 116-121) and \<open>Port.receive\<close> (lines 126-133). An exception leaves
  the port as the statements before it made it: the counter is advanced before the box
  is called, and a short read raises before the counter is touched.
\<close>

definition send :: "port \<Rightarrow> bytes \<Rightarrow> (exn + unit) \<times> port" where
  "send p msg =
     (case pack_24xQ (p_send_nonce p) of
        Inl e \<Rightarrow> (Inl e, p)
      | Inr nonce \<Rightarrow>
          (let p1 = p\<lparr>p_send_nonce := p_send_nonce p + 2,
                      p_calls := p_calls p @ [Encrypt msg nonce]\<rparr> in
           case box_encrypt (p_box p1) msg nonce of
             Inl e \<Rightarrow> (Inl e, p1)
           | Inr data \<Rightarrow>
               (case pack_Q (int (length data)) of
                  Inl e \<Rightarrow> (Inl e, p1)
                | Inr length_data \<Rightarrow>
                    (Inr (), p1\<lparr>p_sock := sendall (p_sock p1) (length_data @ data)\<rparr>))))"

definition receive :: "port \<Rightarrow> (exn + bytes) \<times> port" where
  "receive p =
     (case socket_read_fixed (p_sock p) 8 [] of
        (Inl e, s1) \<Rightarrow> (Inl e, p\<lparr>p_sock := s1\<rparr>)
      | (Inr length_data, s1) \<Rightarrow>
          (case socket_read_fixed s1 (unpack_Q length_data) [] of
             (Inl e, s2) \<Rightarrow> (Inl e, p\<lparr>p_sock := s2\<rparr>)
           | (Inr data, s2) \<Rightarrow>
               (case pack_24xQ (p_receive_nonce p) of
                  Inl e \<Rightarrow> (Inl e, p\<lparr>p_sock := s2\<rparr>)
                | Inr nonce \<Rightarrow>
                    (let p1 = p\<lparr>p_sock := s2, p_receive_nonce := p_receive_nonce p + 2,
                               p_calls := p_calls p @ [Decrypt data nonce]\<rparr> in
                     case box_decrypt (p_box p1) data nonce of
                       Inl e \<Rightarrow> (Inl e, p1)
                     | Inr ret \<Rightarrow> (Inr ret, p1)))))"

text \<open>
  A port is used by a sequence of sends and receives, each of which may raise; the
  caller may go on using the port after an exception. \<open>run_ops\<close> is the port after such
  a sequence. \<open>enc_nonces\<close> and \<open>dec_nonces\<close> read the nonces of the two directions off
  the trace, \<open>nonce_counter\<close> is the number in the low 8 bytes of a nonce, and
  \<open>nonce_of n\<close> is the nonce that \<open>struct.pack(">24xQ", n)\<close> builds. \<open>counted s0 r0 p\<close> says
  that the port has used the counters \<open>s0, s0 + 2, ...\<close> for sending and
  \<open>r0, r0 + 2, ...\<close> for receiving, and nothing else.
\<close>

datatype port_op = OpSend bytes | OpReceive

fun run_ops :: "port \<Rightarrow> port_op list \<Rightarrow> port" where
  "run_ops p [] = p"
| "run_ops p (OpSend msg # ops) = run_ops (snd (send p msg)) ops"
| "run_ops p (OpReceive # ops) = run_ops (snd (receive p)) ops"

fun enc_nonces :: "box_call list \<Rightarrow> bytes list" where
  "enc_nonces [] = []"
| "enc_nonces (Encrypt msg nonce # cs) = nonce # enc_nonces cs"
| "enc_nonces (Decrypt data nonce # cs) = enc_nonces cs"

fun dec_nonces :: "box_call list \<Rightarrow> bytes list" where
  "dec_nonces [] = []"
| "dec_nonces (Encrypt msg nonce # cs) = dec_nonces cs"
| "dec_nonces (Decrypt data nonce # cs) = nonce # dec_nonces cs"

definition nonce_counter :: "bytes \<Rightarrow> nat" where
  "nonce_counter nonce = be_nat (drop 24 nonce)"

definition nonce_of :: "nat \<Rightarrow> bytes" where
  "nonce_of n = replicate 24 0 @ be_bytes 8 n"

definition counted :: "nat \<Rightarrow> nat \<Rightarrow> port \<Rightarrow> bool" where
  "counted s0 r0 p \<longleftrightarrow>
     (\<exists>ns nr.
        p_send_nonce p = int (s0 + 2 * ns) \<and> p_receive_nonce p = int (r0 + 2 * nr)
        \<and> enc_nonces (p_calls p) = map (\<lambda>k. nonce_of (s0 + 2 * k)) [0..<ns]
        \<and> dec_nonces (p_calls p) = map (\<lambda>k. nonce_of (r0 + 2 * k)) [0..<nr]
        \<and> (\<forall>k<ns. s0 + 2 * k < 2 ^ 64) \<and> (\<forall>k<nr. r0 + 2 * k < 2 ^ 64))"

text \<open>
  Sequencing of steps that may raise: the first exception ends the sequence, with the
  state as it was when it was raised.
\<close>

definition and_then ::
  "(exn + 'a) \<times> 's \<Rightarrow> ('a \<Rightarrow> 's \<Rightarrow> (exn + 'b) \<times> 's) \<Rightarrow> (exn + 'b) \<times> 's" where
  "and_then r f = (case r of (Inl e, s) \<Rightarrow> (Inl e, s) | (Inr a, s) \<Rightarrow> f a s)"

section \<open>JSON values and \<open>json_prop\<close>\<close>

text \<open>
  What \<open>json.loads\<close> returns. A Python float is a finite value (a rational number), an
  infinity or NaN; the code only compares floats. \<open>JNull\<close> is \<open>None\<close>, which is also what
  \<open>dict.get\<close> returns for a missing key. A dictionary is the list of its items (keys
  distinct, as \<open>json.loads\<close> leaves them).
\<close>

datatype pyfloat = Finite rat | PosInf | NegInf | NaN

fun float_lt :: "pyfloat \<Rightarrow> pyfloat \<Rightarrow> bool" where
  "float_lt NaN y = False"
| "float_lt x NaN = False"
| "float_lt (Finite a) (Finite b) = (a < b)"
| "float_lt NegInf y = (y \<noteq> NegInf)"
| "float_lt x NegInf = False"
| "float_lt x PosInf = (x \<noteq> PosInf)"
| "float_lt PosInf y = False"


datatype json =
    JNull
  | JBool bool
  | JInt int
  | JFloat pyfloat
  | JStr string
  | JList "json list"
  | JDict "(string \<times> json) list"

datatype pytype = T_float | T_int | T_str | T_bool | T_dict | T_list

text \<open>\<open>isinstance\<close>: in Python \<open>bool\<close> is a subclass of \<open>int\<close>.\<close>

fun isinstance :: "json \<Rightarrow> pytype \<Rightarrow> bool" where
  "isinstance (JBool b) T_bool = True"
| "isinstance (JBool b) T_int = True"
| "isinstance (JInt i) T_int = True"
| "isinstance (JFloat x) T_float = True"
| "isinstance (JStr s) T_str = True"
| "isinstance (JList l) T_list = True"
| "isinstance (JDict d) T_dict = True"
| "isinstance v t = False"

fun pytype_name :: "pytype \<Rightarrow> string" where
  "pytype_name T_float = ''float''"
| "pytype_name T_int = ''int''"
| "pytype_name T_str = ''str''"
| "pytype_name T_bool = ''bool''"
| "pytype_name T_dict = ''dict''"
| "pytype_name T_list = ''list''"

fun type_name :: "json \<Rightarrow> string" where
  "type_name JNull = ''NoneType''"
| "type_name (JBool b) = ''bool''"
| "type_name (JInt i) = ''int''"
| "type_name (JFloat x) = ''float''"
| "type_name (JStr s) = ''str''"
| "type_name (JList l) = ''list''"
| "type_name (JDict d) = ''dict''"

definition dict_get :: "(string \<times> json) list \<Rightarrow> string \<Rightarrow> json" where
  "dict_get d k = (case map_of d k of None \<Rightarrow> JNull | Some v \<Rightarrow> v)"

text \<open>
  \<open>json_prop\<close> (common.py, lines 101-106). The argument is whatever the caller passes:
  a value that is not a dictionary has no \<open>get\<close>, which is an \<open>AttributeError\<close>.
\<close>

definition json_prop :: "json \<Rightarrow> string \<Rightarrow> pytype \<Rightarrow> exn + json" where
  "json_prop obj prop t =
     (case obj of
        JDict d \<Rightarrow>
          (let ret = dict_get d prop in
           if \<not> isinstance ret t then
             Inl (ValueError (''Member '' @ prop @ '' must have type '' @ pytype_name t
                              @ ''; got '' @ type_name ret))
           else Inr ret)
      | _ \<Rightarrow> Inl (AttributeError ''get''))"

text \<open>The Python value behind a JSON value of a known type (\<open>True\<close> is the integer 1).\<close>

fun as_int :: "json \<Rightarrow> int" where
  "as_int (JInt i) = i"
| "as_int (JBool b) = (if b then 1 else 0)"
| "as_int v = 0"

fun as_str :: "json \<Rightarrow> string" where
  "as_str (JStr s) = s"
| "as_str v = []"

fun as_float :: "json \<Rightarrow> pyfloat" where
  "as_float (JFloat x) = x"
| "as_float v = NaN"

fun as_bool :: "json \<Rightarrow> bool" where
  "as_bool (JBool b) = b"
| "as_bool v = False"

text \<open>\<open>v == True\<close>: Python compares numbers by value, so 1 and 1.0 equal \<open>True\<close>.\<close>

fun py_eq_True :: "json \<Rightarrow> bool" where
  "py_eq_True (JBool b) = b"
| "py_eq_True (JInt i) = (i = 1)"
| "py_eq_True (JFloat x) = (x = Finite 1)"
| "py_eq_True v = False"

section \<open>The collaborators of the client\<close>

text \<open>
  client.py calls libraries (\<open>socket\<close>, \<open>json\<close>, \<open>zlib\<close>, PyNaCl) and helpers that it
  imports from common.py but that common.py does not define (\<open>exception_to_string\<close>,
  \<open>json_array\<close>, \<open>sign_with_magic\<close>, \<open>verify_with_magic\<close>, \<open>socket_shutdown\<close>). They are
  the parameters of the model, one field each:
  \<^item> \<open>e_connect\<close>: what \<open>socket.create_connection\<close> returns or raises;
  \<^item> \<open>e_hello\<close>: the bytes of the first handshake message (the protocol version, the
    verification key and the signed ephemeral key);
  \<^item> \<open>e_verify_with_magic\<close>: \<open>verify_with_magic(b"SERVER", ver_key, msg)\<close>;
  \<^item> \<open>e_make_box\<close>: \<open>Box(ephemeral_key, PublicKey(inner_msg))\<close>;
  \<^item> \<open>e_loads\<close>, \<open>e_dumps\<close>: \<open>json.loads\<close>, and \<open>json.dumps(msg).encode("utf-8")\<close>;
  \<^item> \<open>e_decompress\<close>, \<open>e_decode\<close>: \<open>zlib.decompress\<close> and \<open>bytes.decode("utf-8")\<close>;
  \<^item> \<open>e_exception_to_string\<close>, \<open>e_json_array\<close>: the two helpers;
  \<^item> \<open>e_is_stat\<close>: whether a name is a member of \<open>Profiler.StatType\<close>;
  \<^item> \<open>e_format\<close>: the text an f-string gives for a value.
\<close>

record env =
  e_connect :: "exn + sock"
  e_hello :: bytes
  e_verify_with_magic :: "bytes \<Rightarrow> exn + bytes"
  e_make_box :: "bytes \<Rightarrow> exn + box"
  e_loads :: "bytes \<Rightarrow> exn + json"
  e_dumps :: "json \<Rightarrow> bytes"
  e_decompress :: "bytes \<Rightarrow> exn + bytes"
  e_decode :: "bytes \<Rightarrow> exn + string"
  e_exception_to_string :: "exn \<Rightarrow> string"
  e_json_array :: "json \<Rightarrow> pytype \<Rightarrow> exn + json list"
  e_is_stat :: "string \<Rightarrow> bool"
  e_format :: "json \<Rightarrow> string"

text \<open>\<open>Port.send_json\<close> (common.py, line 123) and \<open>Port.receive_json\<close> (lines 135-142).\<close>

definition send_json :: "env \<Rightarrow> port \<Rightarrow> json \<Rightarrow> (exn + unit) \<times> port" where
  "send_json env p msg = send p (e_dumps env msg)"

definition receive_json :: "env \<Rightarrow> port \<Rightarrow> (exn + json) \<times> port" where
  "receive_json env p =
     and_then (receive p) (\<lambda>data p1.
     and_then (e_loads env data, p1) (\<lambda>ret p2.
       if \<not> isinstance ret T_dict
       then (Inl (ValueError ''Top-level JSON value must be a dictionary''), p2)
       else (Inr ret, p2)))"

section \<open>The data of a connection\<close>

text \<open>
  \<open>PortablePermuter\<close> and \<open>ServerProps\<close> as client.py declares them. Of \<open>Connection\<close> the
  fields that \<open>run\<close> reads: the priority, the grant, the permuters and the server's
  nickname, which tags every feedback event (\<open>RemoteServer\<close> in common.py declares
  \<open>ip\<close>, \<open>port\<close> and \<open>ver_key\<close> only; the nickname that client.py reads is taken as
  one more field, and \<open>nickname_of\<close> below is the attribute of the class as it is
  declared). The classes of the \<open>permuter\<close> module are not part of the two files
  and are modelled by what client.py does with them: a task is the \<open>Finished\<close> sentinel
  or a pair of a permuter index and a seed; a feedback event is one of the four that
  \<open>run\<close> puts on the queue.
\<close>

record permuter =
  fn_name :: string
  filename :: string
  keep_prob :: pyfloat
  stack_differences :: bool
  compressed_source :: bytes
  base_score :: int
  base_hash :: string
  target_o_bin :: bytes
  compile_script :: string

record server_props =
  min_priority :: pyfloat
  num_cpus :: pyfloat

record conn =
  c_priority :: pyfloat
  c_grant :: bytes
  c_permuters :: "permuter list"
  c_nickname :: string

text \<open>
  \<open>RemoteServer\<close> as common.py declares it (lines 20-24): a dataclass of three fields.
  An instance built by the class has these attributes and no other, so reading its
  \<open>nickname\<close> is an \<open>AttributeError\<close>.
\<close>

record remote_server =
  rs_ip :: string
  rs_port :: int
  rs_ver_key :: bytes

definition nickname_of :: "remote_server \<Rightarrow> exn + string" where
  "nickname_of server = Inl (AttributeError ''nickname'')"

datatype task = FinishedTask | WorkTask int int

datatype eval_result =
    EvalError string
  | CandidateResult int string "string option" "(string \<times> pyfloat) list"

datatype feedback =
    NeedMoreWork
  | WorkDone int eval_result
  | Message string
  | Finished "string option"

text \<open>
  The state a session works on once the port exists: the port, the task queue (the
  tasks it will deliver, in order; \<open>get\<close> on an empty queue blocks for ever), the events
  this connection has put on the feedback queue, and whether \<open>port.shutdown(SHUT_WR)\<close>
  has been called.
\<close>

record state =
  st_port :: port
  st_tasks :: "task list"
  st_feedback :: "(feedback \<times> string) list"
  st_shut_wr :: bool

definition put :: "conn \<Rightarrow> feedback \<Rightarrow> state \<Rightarrow> state" where
  "put c ev st = st\<lparr>st_feedback := st_feedback st @ [(ev, c_nickname c)]\<rparr>"

text \<open>A step of the port inside the session state.\<close>

definition on_port :: "(port \<Rightarrow> (exn + 'a) \<times> port) \<Rightarrow> state \<Rightarrow> (exn + 'a) \<times> state" where
  "on_port f st = (case f (st_port st) of (r, p) \<Rightarrow> (r, st\<lparr>st_port := p\<rparr>))"

section \<open>\<open>Connection._setup\<close>, \<open>_init\<close> and \<open>_send_permuters\<close>\<close>

text \<open>
  \<open>_setup\<close> (client.py, lines 146-178). The second component is \<open>self._sock\<close> as the
  method leaves it: \<open>None\<close> when \<open>create_connection\<close> raised, the socket otherwise.
\<close>

definition Connection_setup :: "env \<Rightarrow> (exn + port) \<times> sock option" where
  "Connection_setup env =
     (case e_connect env of
        Inl e \<Rightarrow> (Inl e, None)
      | Inr sk \<Rightarrow>
          (case socket_read_fixed (sendall sk (e_hello env)) (7 + 32 + 64) [] of
             (Inl e, sk1) \<Rightarrow> (Inl e, Some sk1)
           | (Inr msg, sk1) \<Rightarrow>
               (case e_verify_with_magic env msg of
                  Inl e \<Rightarrow> (Inl e, Some sk1)
                | Inr inner_msg \<Rightarrow>
                    (case e_make_box env inner_msg of
                       Inl e \<Rightarrow> (Inl e, Some sk1)
                     | Inr bx \<Rightarrow>
                         (case receive (Port sk1 bx True) of
                            (Inl e, p) \<Rightarrow> (Inl e, Some (p_sock p))
                          | (Inr dummy, p) \<Rightarrow> (Inr p, Some (p_sock p)))))))"

text \<open>\<open>_init\<close> (lines 180-188).\<close>

definition Connection_init :: "env \<Rightarrow> conn \<Rightarrow> port \<Rightarrow> (exn + server_props) \<times> port" where
  "Connection_init env c p =
     and_then (send p (c_grant c)) (\<lambda>u p1.
     and_then (receive p1) (\<lambda>data p2.
     and_then (e_loads env data, p2) (\<lambda>obj p3.
     and_then (json_prop obj ''min_priority'' T_float, p3) (\<lambda>mp p4.
     and_then (json_prop obj ''num_cpus'' T_float, p4) (\<lambda>nc p5.
       (Inr \<lparr>min_priority = as_float mp, num_cpus = as_float nc\<rparr>, p5))))))"

text \<open>\<open>_send_permuters\<close> (lines 190-209).\<close>

definition permuter_obj :: "permuter \<Rightarrow> json" where
  "permuter_obj pm =
     JDict [(''fn_name'', JStr (fn_name pm)),
            (''filename'', JStr (filename pm)),
            (''keep_prob'', JFloat (keep_prob pm)),
            (''stack_differences'', JBool (stack_differences pm)),
            (''compile_script'', JStr (compile_script pm))]"

definition init_obj :: "conn \<Rightarrow> json" where
  "init_obj c =
     JDict [(''priority'', JFloat (c_priority c)),
            (''permuters'', JList (map permuter_obj (c_permuters c)))]"

fun send_blobs :: "permuter list \<Rightarrow> port \<Rightarrow> (exn + unit) \<times> port" where
  "send_blobs [] p = (Inr (), p)"
| "send_blobs (pm # pms) p =
     and_then (send p (compressed_source pm)) (\<lambda>u p1.
     and_then (send p1 (target_o_bin pm)) (\<lambda>u p2.
       send_blobs pms p2))"

definition Connection_send_permuters :: "env \<Rightarrow> conn \<Rightarrow> port \<Rightarrow> (exn + unit) \<times> port" where
  "Connection_send_permuters env c p =
     and_then (send_json env p (init_obj c)) (\<lambda>u p1. send_blobs (c_permuters c) p1)"

section \<open>Results and baselines\<close>

text \<open>
  \<open>_profiler_from_json\<close> (client.py, lines 49-56) walks the keys of its argument in
  order; a key that is no member of \<open>Profiler.StatType\<close> is a \<open>KeyError\<close>. The profiler
  is represented by the \<open>add_stat\<close> calls made on it. The loop iterates whatever it
  is given: a list or a string that is empty gives the empty profiler, the first
  element of another one fails the assertion, the lookup in \<open>StatType\<close> or, in
  \<open>json_prop\<close>, the call of \<open>get\<close>; any other value cannot be iterated.
  \<open>_result_from_json\<close> is lines 59-69.
\<close>

fun profiler_items :: "env \<Rightarrow> json \<Rightarrow> (string \<times> json) list \<Rightarrow> exn + (string \<times> pyfloat) list" where
  "profiler_items env obj [] = Inr []"
| "profiler_items env obj ((key, v) # rest) =
     (if \<not> e_is_stat env key then Inl (KeyError key)
      else case json_prop obj key T_float of
             Inl e \<Rightarrow> Inl e
           | Inr time \<Rightarrow>
               (case profiler_items env obj rest of
                  Inl e \<Rightarrow> Inl e
                | Inr stats \<Rightarrow> Inr ((key, as_float time) # stats)))"

definition profiler_from_json :: "env \<Rightarrow> json \<Rightarrow> exn + (string \<times> pyfloat) list" where
  "profiler_from_json env obj =
     (case obj of
        JDict d \<Rightarrow> profiler_items env obj d
      | JList l \<Rightarrow>
          (case l of
             [] \<Rightarrow> Inr []
           | key # rest \<Rightarrow>
               (case key of
                  JStr k \<Rightarrow>
                    if \<not> e_is_stat env k then Inl (KeyError k) else Inl (AttributeError ''get'')
                | _ \<Rightarrow> Inl (AssertionError ''json properties are strings'')))
      | JStr s \<Rightarrow>
          (case s of
             [] \<Rightarrow> Inr []
           | ch # rest \<Rightarrow>
               if \<not> e_is_stat env [ch] then Inl (KeyError [ch]) else Inl (AttributeError ''get''))
      | _ \<Rightarrow> Inl (TypeError ''object is not iterable''))"

definition has_key :: "json \<Rightarrow> string \<Rightarrow> bool" where
  "has_key obj k = (case obj of JDict d \<Rightarrow> map_of d k \<noteq> None | _ \<Rightarrow> False)"

definition json_get :: "json \<Rightarrow> string \<Rightarrow> json" where
  "json_get obj k = (case obj of JDict d \<Rightarrow> dict_get d k | _ \<Rightarrow> JNull)"

definition result_from_json :: "env \<Rightarrow> json \<Rightarrow> string option \<Rightarrow> exn + eval_result" where
  "result_from_json env obj source =
     (if has_key obj ''error'' then
        (case json_prop obj ''error'' T_str of
           Inl e \<Rightarrow> Inl e
         | Inr s \<Rightarrow> Inr (EvalError (as_str s)))
      else
        (case json_prop obj ''profiler'' T_dict of
           Inl e \<Rightarrow> Inl e
         | Inr pj \<Rightarrow>
             (case profiler_from_json env pj of
                Inl e \<Rightarrow> Inl e
              | Inr profiler \<Rightarrow>
                  (case json_prop obj ''score'' T_int of
                     Inl e \<Rightarrow> Inl e
                   | Inr sc \<Rightarrow>
                       (case json_prop obj ''hash'' T_str of
                          Inl e \<Rightarrow> Inl e
                        | Inr h \<Rightarrow> Inr (CandidateResult (as_int sc) (as_str h) source profiler))))))"

text \<open>
  The loop over \<open>enumerate(bases)\<close> in \<open>run\<close> (lines 231-244), from index \<open>i\<close> on. The
  caller has checked that there are as many bases as permuters.
\<close>

fun check_bases :: "env \<Rightarrow> conn \<Rightarrow> nat \<Rightarrow> json list \<Rightarrow> state \<Rightarrow> (exn + unit) \<times> state" where
  "check_bases env c i [] st = (Inr (), st)"
| "check_bases env c i (base # bases) st =
     and_then (json_prop base ''base_score'' T_int, st) (\<lambda>srv_score st1.
     and_then (json_prop base ''base_hash'' T_str, st1) (\<lambda>srv_hash st2.
       if \<not> i < length (c_permuters c) then (Inl IndexError, st2)
       else if as_int srv_score \<noteq> base_score (c_permuters c ! i) then
         (Inl (ValueError (''mismatching base score! ('' @ e_format env srv_score
                           @ '' instead of ''
                           @ e_format env (JInt (base_score (c_permuters c ! i))) @ '')'')), st2)
       else
         check_bases env c (Suc i) bases
           (if as_str srv_hash \<noteq> base_hash (c_permuters c ! i)
            then put c (Message ''note: mismatching hash'') st2 else st2)))"

section \<open>The main loop\<close>

text \<open>
  One pass of the \<open>while True\<close> loop (lines 259-299). \<open>pull_task\<close> is its first half
  (lines 262-274): it returns the new value of \<open>finished\<close>, or nothing when the task
  queue is empty and \<open>get\<close> never returns. \<open>result_source\<close> is lines 287-292 and
  \<open>handle_result\<close> the whole \<open>"result"\<close> branch (lines 286-296).
\<close>

definition pull_task :: "env \<Rightarrow> state \<Rightarrow> bool \<Rightarrow> ((exn + bool) \<times> state) option" where
  "pull_task env st finished =
     (if \<not> finished then
        (case st_tasks st of
           [] \<Rightarrow> None
         | tk # rest \<Rightarrow>
             (case tk of
                FinishedTask \<Rightarrow>
                  Some (and_then
                    (on_port (\<lambda>p. send_json env p (JDict [(''type'', JStr ''finish'')]))
                       (st\<lparr>st_tasks := rest\<rparr>))
                    (\<lambda>u st1. (Inr True, st1\<lparr>st_shut_wr := True\<rparr>)))
              | WorkTask perm seed \<Rightarrow>
                  Some (and_then
                    (on_port (\<lambda>p. send_json env p
                        (JDict [(''type'', JStr ''work''), (''permuter'', JInt perm),
                                (''seed'', JInt seed)]))
                       (st\<lparr>st_tasks := rest\<rparr>))
                    (\<lambda>u st1. (Inr False, st1)))))
      else Some (Inr finished, st))"

definition result_source :: "env \<Rightarrow> json \<Rightarrow> state \<Rightarrow> (exn + string option) \<times> state" where
  "result_source env msg st =
     (if py_eq_True (json_get msg ''has_source'') then
        and_then (on_port receive st) (\<lambda>compressed st1.
        and_then (e_decompress env compressed, st1) (\<lambda>raw st2.
        and_then (e_decode env raw, st2) (\<lambda>src st3.
          (Inr (Some src), st3))))
      else (Inr None, st))"

definition handle_result :: "env \<Rightarrow> conn \<Rightarrow> json \<Rightarrow> state \<Rightarrow> (exn + unit) \<times> state" where
  "handle_result env c msg st =
     and_then (json_prop msg ''permuter'' T_int, st) (\<lambda>permuter_index st1.
     and_then (result_source env msg st1) (\<lambda>source st2.
     and_then (result_from_json env msg source, st2) (\<lambda>res st3.
       (Inr (), put c (WorkDone (as_int permuter_index) res) st3))))"

datatype step = Blocked | Raised exn state | Break bool state | Again bool state

definition loop_step :: "env \<Rightarrow> conn \<Rightarrow> state \<Rightarrow> bool \<Rightarrow> step" where
  "loop_step env c st finished =
     (case pull_task env st finished of
        None \<Rightarrow> Blocked
      | Some (Inl e, st1) \<Rightarrow> Raised e st1
      | Some (Inr fin, st1) \<Rightarrow>
          (case on_port (receive_json env) st1 of
             (Inl e, st2) \<Rightarrow> Raised e st2
           | (Inr msg, st2) \<Rightarrow>
               (case json_prop msg ''type'' T_str of
                  Inl e \<Rightarrow> Raised e st2
                | Inr mt \<Rightarrow>
                    if as_str mt = ''finish'' then Break fin st2
                    else if as_str mt = ''need_work'' then Again fin (put c NeedMoreWork st2)
                    else if as_str mt = ''result'' then
                      (case handle_result env c msg st2 of
                         (Inl e, st3) \<Rightarrow> Raised e st3
                       | (Inr u, st3) \<Rightarrow> Again fin st3)
                    else Raised (ValueError (''Invalid message type '' @ as_str mt)) st2)))"

section \<open>Reading from the socket\<close>

text \<open>
  \<open>socket_read_fixed\<close> returns the next \<open>n\<close> bytes of the stream when it has that many,
  whatever the chunks \<open>recv\<close> hands out, and raises otherwise; it never writes.
\<close>

lemma recv_shape:
  assumes "0 < k"
  shows "\<exists>m. 0 < m \<and> m \<le> k \<and> fst (recv s k) = take m (s_in s)
     \<and> s_in (snd (recv s k)) = drop m (s_in s) \<and> s_out (snd (recv s k)) = s_out s"
proof (cases "s_chunks s")
  case Nil
  then show ?thesis using assms by (intro exI[of _ k]) (simp add: recv_def Let_def)
next
  case (Cons c cs)
  then show ?thesis using assms
    by (intro exI[of _ "max 1 (min c k)"]) (auto simp: recv_def Let_def)
qed

lemma srf_0: "socket_read_fixed s 0 ret = (Inr (concat ret), s)"
  by (subst socket_read_fixed.simps) simp

lemma srf_out: "s_out (snd (socket_read_fixed s n ret)) = s_out s"
proof (induction s n ret rule: socket_read_fixed.induct)
  case (1 s n ret)
  show ?case
  proof (cases "n > 0")
    case False
    then show ?thesis by (simp add: srf_0)
  next
    case True
    obtain data s' where r: "recv s (min n 4096) = (data, s')" by (cases "recv s (min n 4096)")
    from True have "0 < min n 4096" by simp
    from recv_shape[OF this, of s] r have o: "s_out s' = s_out s" by auto
    show ?thesis
    proof (cases "data = []")
      case True
      with r o \<open>n > 0\<close> show ?thesis by (subst socket_read_fixed.simps) simp
    next
      case False
      with "1.IH"[OF \<open>n > 0\<close> r[symmetric] ] r o \<open>n > 0\<close> show ?thesis
        by (subst socket_read_fixed.simps) simp
    qed
  qed
qed

lemma srf_ok:
  "n \<le> length (s_in s) \<Longrightarrow>
     fst (socket_read_fixed s n ret) = Inr (concat ret @ take n (s_in s))
     \<and> s_in (snd (socket_read_fixed s n ret)) = drop n (s_in s)"
proof (induction s n ret rule: socket_read_fixed.induct)
  case (1 s n ret)
  show ?case
  proof (cases "n > 0")
    case False
    then show ?thesis by (simp add: srf_0)
  next
    case True
    obtain data s' where r: "recv s (min n 4096) = (data, s')" by (cases "recv s (min n 4096)")
    from True have "0 < min n 4096" by simp
    from recv_shape[OF this, of s] r obtain m where
      m: "0 < m" "m \<le> min n 4096" "data = take m (s_in s)" "s_in s' = drop m (s_in s)"
      by auto
    from m "1.prems" True have ne: "data \<noteq> []" by auto
    from m "1.prems" have len: "length data = m" by simp
    have le: "n - length data \<le> length (s_in s')" using m "1.prems" len by simp
    from "1.IH"[OF True r[symmetric] ne le]
    have ih: "fst (socket_read_fixed s' (n - length data) (ret @ [data])) =
          Inr (concat (ret @ [data]) @ take (n - length data) (s_in s'))"
       "s_in (snd (socket_read_fixed s' (n - length data) (ret @ [data]))) =
          drop (n - length data) (s_in s')" by auto
    have eq: "socket_read_fixed s n ret = socket_read_fixed s' (n - length data) (ret @ [data])"
      using True r ne by (subst socket_read_fixed.simps) simp
    have t: "take m (s_in s) @ take (n - m) (drop m (s_in s)) = take n (s_in s)"
      using m by (metis le_add_diff_inverse min.boundedE take_add)
    show ?thesis using ih m len t unfolding eq by (simp add: add.commute)
  qed
qed

lemma srf_eof:
  "length (s_in s) < n \<Longrightarrow> fst (socket_read_fixed s n ret) = Inl (Exception ''eof'')"
proof (induction s n ret rule: socket_read_fixed.induct)
  case (1 s n ret)
  from "1.prems" have True: "n > 0" by simp
  obtain data s' where r: "recv s (min n 4096) = (data, s')" by (cases "recv s (min n 4096)")
  from True have "0 < min n 4096" by simp
  from recv_shape[OF this, of s] r obtain m where
    m: "0 < m" "m \<le> min n 4096" "data = take m (s_in s)" "s_in s' = drop m (s_in s)"
    by auto
  show ?case
  proof (cases "data = []")
    case True
    with r \<open>n > 0\<close> show ?thesis by (subst socket_read_fixed.simps) simp
  next
    case False
    have len: "length data \<le> length (s_in s)" using m by simp
    have lt: "length (s_in s') < n - length data" using m "1.prems" by auto
    from "1.IH"[OF True r[symmetric] False lt] r True False show ?thesis
      by (subst socket_read_fixed.simps) simp
  qed
qed

lemma be_nat_snoc: "be_nat (bs @ [b]) = be_nat bs * 256 + unat b"
  by (simp add: be_nat_def)

lemma be_nat_be_bytes: "be_nat (be_bytes k n) = n mod 256 ^ k"
proof (induction k arbitrary: n)
  case 0
  then show ?case by (simp add: be_nat_def)
next
  case (Suc k)
  have u: "unat (of_nat (n mod 256) :: 8 word) = n mod 256"
    by (simp add: unat_of_nat)
  show ?case using Suc[of "n div 256"] u
    by (simp add: be_nat_snoc mod_mult2_eq)
qed


lemma srf_cases:
  "(n \<le> length (s_in s) \<and> fst (socket_read_fixed s n ret) = Inr (concat ret @ take n (s_in s))
      \<and> s_in (snd (socket_read_fixed s n ret)) = drop n (s_in s))
   \<or> (length (s_in s) < n \<and> fst (socket_read_fixed s n ret) = Inl (Exception ''eof''))"
  using srf_ok[of n s ret] srf_eof[of s n ret] by (cases "n \<le> length (s_in s)") auto

lemma srf_Inr:
  assumes "socket_read_fixed s n ret = (Inr b, s')"
  shows "n \<le> length (s_in s) \<and> b = concat ret @ take n (s_in s)
         \<and> s_in s' = drop n (s_in s) \<and> s_out s' = s_out s"
  using srf_cases[of n s ret] srf_out[of s n ret] assms by auto

lemma srf_mono: "length (s_in (snd (socket_read_fixed s n ret))) \<le> length (s_in s)"
proof (induction s n ret rule: socket_read_fixed.induct)
  case (1 s n ret)
  show ?case
  proof (cases "n > 0")
    case False
    then show ?thesis by (simp add: srf_0)
  next
    case True
    obtain data s' where r: "recv s (min n 4096) = (data, s')" by (cases "recv s (min n 4096)")
    from True have "0 < min n 4096" by simp
    from recv_shape[OF this, of s] r have o: "length (s_in s') \<le> length (s_in s)" by auto
    show ?thesis
    proof (cases "data = []")
      case True
      with r o \<open>n > 0\<close> show ?thesis by (subst socket_read_fixed.simps) simp
    next
      case False
      with "1.IH"[OF \<open>n > 0\<close> r[symmetric] ] r o \<open>n > 0\<close> show ?thesis
        by (subst socket_read_fixed.simps) simp
    qed
  qed
qed

text \<open>The number of bytes the peer has still to deliver on a port's socket.\<close>

definition inlen :: "port \<Rightarrow> nat" where
  "inlen p = length (s_in (p_sock p))"

text \<open>
  \<open>frame_ready p\<close>: the bytes still to come on the socket of \<open>p\<close> hold a whole frame,
  the 8 bytes of a length and as many bytes as they announce.
\<close>

definition frame_ready :: "port \<Rightarrow> bool" where
  "frame_ready p \<longleftrightarrow>
     8 \<le> inlen p \<and> 8 + unpack_Q (take 8 (s_in (p_sock p))) \<le> inlen p"

lemma send_inlen: "inlen (snd (send p m)) = inlen p"
  by (simp add: send_def inlen_def sendall_def Let_def split: sum.splits)

lemma receive_mono: "inlen (snd (receive p)) \<le> inlen p"
proof -
  obtain r1 s1 where r1: "socket_read_fixed (p_sock p) 8 [] = (r1, s1)"
    by (cases "socket_read_fixed (p_sock p) 8 []")
  have le1: "length (s_in s1) \<le> length (s_in (p_sock p))"
    using srf_mono[of "p_sock p" 8 "[]"] r1 by simp
  show ?thesis
  proof (cases r1)
    case (Inl e)
    with r1 le1 show ?thesis by (simp add: receive_def inlen_def)
  next
    case (Inr ld)
    obtain r2 s2 where r2: "socket_read_fixed s1 (unpack_Q ld) [] = (r2, s2)"
      by (cases "socket_read_fixed s1 (unpack_Q ld) []")
    have le2: "length (s_in s2) \<le> length (s_in s1)"
      using srf_mono[of s1 "unpack_Q ld" "[]"] r2 by simp
    have "p_sock (snd (receive p)) = s2" using r1 Inr r2
      by (auto simp: receive_def Let_def split: sum.splits)
    with le1 le2 show ?thesis by (simp add: inlen_def)
  qed
qed

lemma receive_Inr_lt:
  assumes "receive p = (Inr d, p')"
  shows "inlen p' + 8 \<le> inlen p"
proof -
  obtain r1 s1 where r1: "socket_read_fixed (p_sock p) 8 [] = (r1, s1)"
    by (cases "socket_read_fixed (p_sock p) 8 []")
  with assms obtain ld where ld: "r1 = Inr ld"
    by (cases r1) (auto simp: receive_def)
  from srf_Inr[OF r1[unfolded ld]] have s1: "8 \<le> length (s_in (p_sock p))"
    "s_in s1 = drop 8 (s_in (p_sock p))" by auto
  obtain r2 s2 where r2: "socket_read_fixed s1 (unpack_Q ld) [] = (r2, s2)"
    by (cases "socket_read_fixed s1 (unpack_Q ld) []")
  have "length (s_in s2) \<le> length (s_in s1)" using srf_mono[of s1 "unpack_Q ld" "[]"] r2 by simp
  moreover have "p_sock p' = s2" using assms r1 ld r2
    by (auto simp: receive_def Let_def split: sum.splits)
  ultimately show ?thesis using s1 by (simp add: inlen_def)
qed

section \<open>Every pass of the loop consumes input\<close>

lemma and_then_Inl [simp]: "and_then (Inl e, s) f = (Inl e, s)"
  by (simp add: and_then_def)

lemma and_then_Inr [simp]: "and_then (Inr a, s) f = f a s"
  by (simp add: and_then_def)

lemma and_then_eq_Inr:
  "and_then r f = (Inr b, s') \<longleftrightarrow> (\<exists>a s. r = (Inr a, s) \<and> f a s = (Inr b, s'))"
  by (cases r; cases "fst r") (auto simp: and_then_def)

lemma and_then_eq_Inl:
  "and_then r f = (Inl e, s') \<longleftrightarrow>
     r = (Inl e, s') \<or> (\<exists>a s. r = (Inr a, s) \<and> f a s = (Inl e, s'))"
  by (cases r; cases "fst r") (auto simp: and_then_def)

lemma receive_json_mono: "inlen (snd (receive_json env p)) \<le> inlen p"
  using receive_mono[of p]
  by (cases "receive p"; cases "fst (receive p)")
     (auto simp: receive_json_def and_then_def split: sum.splits)

lemma receive_json_Inr_lt:
  assumes "receive_json env p = (Inr msg, p')"
  shows "inlen p' + 8 \<le> inlen p"
proof -
  from assms obtain d where "receive p = (Inr d, p')"
    by (auto simp: receive_json_def and_then_eq_Inr split: if_splits)
  then show ?thesis by (rule receive_Inr_lt)
qed

lemma send_json_inlen: "inlen (snd (send_json env p m)) = inlen p"
  by (simp add: send_json_def send_inlen)

lemma pull_task_inlen:
  assumes "pull_task env st fin = Some (r, st1)"
  shows "inlen (st_port st1) = inlen (st_port st)"
proof (cases fin)
  case True
  with assms show ?thesis by (simp add: pull_task_def)
next
  case False
  show ?thesis
  proof (cases "st_tasks st")
    case Nil
    with assms False show ?thesis by (simp add: pull_task_def)
  next
    case (Cons tk rest)
    show ?thesis
    proof (cases tk)
      case FinishedTask
      obtain r0 p0 where s: "send_json env (st_port st) (JDict [(''type'', JStr ''finish'')]) = (r0, p0)"
        by (cases "send_json env (st_port st) (JDict [(''type'', JStr ''finish'')])")
      have "inlen p0 = inlen (st_port st)"
        using send_json_inlen[of env "st_port st" "JDict [(''type'', JStr ''finish'')]"] s by simp
      with assms False Cons FinishedTask s show ?thesis
        by (cases r0) (auto simp: pull_task_def on_port_def)
    next
      case (WorkTask perm seed)
      let ?m = "JDict [(''type'', JStr ''work''), (''permuter'', JInt perm), (''seed'', JInt seed)]"
      obtain r0 p0 where s: "send_json env (st_port st) ?m = (r0, p0)"
        by (cases "send_json env (st_port st) ?m")
      have "inlen p0 = inlen (st_port st)"
        using send_json_inlen[of env "st_port st" ?m] s by simp
      with assms False Cons WorkTask s show ?thesis
        by (cases r0) (auto simp: pull_task_def on_port_def)
    qed
  qed
qed

lemma result_source_mono: "inlen (st_port (snd (result_source env msg st))) \<le> inlen (st_port st)"
proof (cases "py_eq_True (json_get msg ''has_source'')")
  case False
  then show ?thesis by (simp add: result_source_def)
next
  case True
  obtain r p where r: "receive (st_port st) = (r, p)" by (cases "receive (st_port st)")
  have "inlen p \<le> inlen (st_port st)" using receive_mono[of "st_port st"] r by simp
  with True r show ?thesis
    by (cases r) (auto simp: result_source_def on_port_def and_then_def split: sum.splits)
qed

lemma handle_result_mono:
  "inlen (st_port (snd (handle_result env c msg st))) \<le> inlen (st_port st)"
proof -
  obtain r st2 where r: "result_source env msg st = (r, st2)" by (cases "result_source env msg st")
  have "inlen (st_port st2) \<le> inlen (st_port st)" using result_source_mono[of env msg st] r by simp
  with r show ?thesis
    by (cases r) (auto simp: handle_result_def and_then_def put_def split: sum.splits)
qed

lemma loop_step_Again:
  assumes "loop_step env c st fin = Again fin' st'"
  shows "inlen (st_port st') < inlen (st_port st)"
proof -
  from assms obtain st1 where p: "pull_task env st fin = Some (Inr fin', st1)"
    by (auto simp: loop_step_def split: option.splits prod.splits sum.splits if_splits)
  from pull_task_inlen[OF p] have e1: "inlen (st_port st1) = inlen (st_port st)" .
  obtain r p2 where rj: "receive_json env (st_port st1) = (r, p2)"
    by (cases "receive_json env (st_port st1)")
  with assms p obtain msg where msg: "r = Inr msg"
    by (cases r) (auto simp: loop_step_def on_port_def)
  from receive_json_Inr_lt[OF rj[unfolded msg]] have e2: "inlen p2 + 8 \<le> inlen (st_port st1)" .
  let ?st2 = "st1\<lparr>st_port := p2\<rparr>"
  have e3: "inlen (st_port st') \<le> inlen p2"
    using assms p rj msg handle_result_mono[of env c msg ?st2]
    by (auto simp: loop_step_def on_port_def put_def split: sum.splits if_splits prod.splits)
  from e1 e2 e3 show ?thesis by simp
qed

text \<open>
  The \<open>while True\<close> loop (lines 259-299). It returns the value of \<open>finished\<close> at the
  \<open>break\<close>, or the exception raised, or nothing when it blocks on the task queue. Each
  pass that loops again has read a message of at least 8 bytes from a finite stream.
\<close>

function main_loop :: "env \<Rightarrow> conn \<Rightarrow> state \<Rightarrow> bool \<Rightarrow> ((exn + bool) \<times> state) option" where
  "main_loop env c st finished =
     (case loop_step env c st finished of
        Blocked \<Rightarrow> None
      | Raised e st1 \<Rightarrow> Some (Inl e, st1)
      | Break fin st1 \<Rightarrow> Some (Inr fin, st1)
      | Again fin st1 \<Rightarrow> main_loop env c st1 fin)"
  by pat_completeness auto
termination
  by (relation "measure (\<lambda>(env, c, st, finished). inlen (st_port st))")
     (auto dest: loop_step_Again)

declare main_loop.simps [simp del]

section \<open>\<open>Connection.run\<close>\<close>

text \<open>
  \<open>negotiate_bases\<close> is lines 222-244 of \<open>run\<close>, from the compile result to the end of
  the baseline check: \<open>Inr (Some reason)\<close> when \<open>run\<close> returns there with that
  \<open>finish_reason\<close>, \<open>Inr None\<close> when it goes on. \<open>Connection_stream\<close> is lines 222-299, all
  that follows \<open>_send_permuters\<close>, and \<open>Connection_session\<close> is the body of the \<open>try\<close>
  after \<open>_setup\<close> (lines 215-299); both have \<open>finish_reason\<close> as their result.
\<close>

definition negotiate_bases :: "env \<Rightarrow> conn \<Rightarrow> state \<Rightarrow> (exn + string option) \<times> state" where
  "negotiate_bases env c st =
     and_then (on_port (receive_json env) st) (\<lambda>msg st1.
     and_then (json_prop msg ''success'' T_bool, st1) (\<lambda>success st2.
       if \<not> as_bool success then
         and_then (json_prop msg ''error'' T_str, st2) (\<lambda>err st3.
           (Inr (Some (''failed to compile: '' @ as_str err)), st3))
       else
         and_then (json_prop msg ''perm_bases'' T_list, st2) (\<lambda>pb st3.
         and_then (e_json_array env pb T_dict, st3) (\<lambda>bases st4.
           if length bases \<noteq> length (c_permuters c) then
             (Inl (ValueError ''perm_bases has wrong size''), st4)
           else
             and_then (check_bases env c 0 bases st4) (\<lambda>u st5. (Inr None, st5))))))"

definition Connection_stream ::
  "env \<Rightarrow> conn \<Rightarrow> state \<Rightarrow> ((exn + string option) \<times> state) option" where
  "Connection_stream env c st =
     (case negotiate_bases env c st of
        (Inl e, st1) \<Rightarrow> Some (Inl e, st1)
      | (Inr (Some reason), st1) \<Rightarrow> Some (Inr (Some reason), st1)
      | (Inr None, st1) \<Rightarrow>
          (case main_loop env c (put c NeedMoreWork st1) False of
             None \<Rightarrow> None
           | Some (Inl e, st2) \<Rightarrow> Some (Inl e, st2)
           | Some (Inr fin, st2) \<Rightarrow> Some (Inr None, st2)))"

definition Connection_session ::
  "env \<Rightarrow> conn \<Rightarrow> state \<Rightarrow> ((exn + string option) \<times> state) option" where
  "Connection_session env c st =
     (case on_port (Connection_init env c) st of
        (Inl e, st1) \<Rightarrow> Some (Inl e, st1)
      | (Inr props, st1) \<Rightarrow>
          if float_lt (c_priority c) (min_priority props) then
            Some (Inr (Some (''skipping due to priority requirement ''
                             @ e_format env (JFloat (min_priority props)))), st1)
          else
            (case on_port (Connection_send_permuters env c) st1 of
               (Inl e, st2) \<Rightarrow> Some (Inl e, st2)
             | (Inr u, st2) \<Rightarrow> Connection_stream env c st2))"

text \<open>
  The \<open>except\<close> clauses (lines 301-306) turn an exception into a \<open>finish_reason\<close>; the
  \<open>finally\<close> clause (lines 308-314) puts the \<open>Finished\<close> event and closes the socket if
  there is one. \<open>o_raised\<close> is the exception that leaves \<open>run\<close>, if any. The first
  argument of \<open>run_finally\<close> is what \<open>self._server.nickname\<close> evaluates to: the pair
  handed to \<open>put\<close> is built first, so an exception there leaves \<open>run\<close> before anything
  is put and before the socket is closed. \<open>Connection_run\<close> is \<open>run\<close> for a server object
  that carries the nickname \<open>c_nickname\<close>.
\<close>

record outcome =
  o_raised :: "exn option"
  o_feedback :: "(feedback \<times> string) list"
  o_sock :: "sock option"
  o_closed :: bool
  o_tasks :: "task list"

definition run_except :: "env \<Rightarrow> exn + string option \<Rightarrow> exn + string option" where
  "run_except env r =
     (case r of
        Inr finish_reason \<Rightarrow> Inr finish_reason
      | Inl e \<Rightarrow>
          if e = EOFError then Inr (Some ''disconnected'')
          else Inr (Some (''error: '' @ e_exception_to_string env e)))"

definition run_finally ::
  "exn + string \<Rightarrow> exn + string option \<Rightarrow> (feedback \<times> string) list \<Rightarrow> sock option
     \<Rightarrow> task list \<Rightarrow> outcome" where
  "run_finally nickname r fb so tasks =
     (case nickname of
        Inl e \<Rightarrow>
          \<lparr>o_raised = Some e, o_feedback = fb, o_sock = so, o_closed = False, o_tasks = tasks\<rparr>
      | Inr nick \<Rightarrow>
          \<lparr>o_raised = (case r of Inl e \<Rightarrow> Some e | Inr finish_reason \<Rightarrow> None),
           o_feedback =
             fb @ [(Finished (case r of Inl e \<Rightarrow> None | Inr finish_reason \<Rightarrow> finish_reason),
                    nick)],
           o_sock = so,
           o_closed = (so \<noteq> None),
           o_tasks = tasks\<rparr>)"

text \<open>
  \<open>run\<close> (lines 211-314) for the tasks the queue will deliver. \<open>run_try\<close> is the \<open>try\<close>
  block with what it leaves behind: its result, the events put so far, \<open>self._sock\<close> and
  the rest of the queue. The result is \<open>None\<close> when \<open>run\<close> never returns.
\<close>

definition run_try ::
  "env \<Rightarrow> conn \<Rightarrow> task list
     \<Rightarrow> ((exn + string option) \<times> (feedback \<times> string) list \<times> sock option \<times> task list) option" where
  "run_try env c tasks =
     (case Connection_setup env of
        (Inl e, so) \<Rightarrow> Some (Inl e, [], so, tasks)
      | (Inr p, so) \<Rightarrow>
          (case Connection_session env c
                  \<lparr>st_port = p, st_tasks = tasks, st_feedback = [], st_shut_wr = False\<rparr> of
             None \<Rightarrow> None
           | Some (r, st) \<Rightarrow>
               Some (r, st_feedback st, Some (p_sock (st_port st)), st_tasks st)))"

definition Connection_run :: "env \<Rightarrow> conn \<Rightarrow> task list \<Rightarrow> outcome option" where
  "Connection_run env c tasks =
     (case run_try env c tasks of
        None \<Rightarrow> None
      | Some (r, fb, so, rest) \<Rightarrow>
          Some (run_finally (Inr (c_nickname c)) (run_except env r) fb so rest))"

section \<open>Baselines as the server reports them\<close>






definition with_notes :: "conn \<Rightarrow> nat \<Rightarrow> state \<Rightarrow> state" where
  "with_notes c k st =
     st\<lparr>st_feedback :=
          st_feedback st @ replicate k (Message ''note: mismatching hash'', c_nickname c)\<rparr>"

section \<open>What a session leaves behind\<close>

text \<open>
  \<open>extends st st'\<close>: from \<open>st\<close> to \<open>st'\<close> the connection has put events other than
  \<open>Finished\<close> on the feedback queue, made further calls to its box, taken tasks from the
  front of the queue, and not undone \<open>shutdown\<close>. \<open>sent_finish\<close>: the message
  \<open>{"type": "finish"}\<close> has been passed to the box and the write side shut down.
\<close>

fun is_Finished :: "feedback \<Rightarrow> bool" where
  "is_Finished (Finished reason) = True"
| "is_Finished ev = False"

definition extends :: "state \<Rightarrow> state \<Rightarrow> bool" where
  "extends st st' \<longleftrightarrow>
     (\<exists>evs. st_feedback st' = st_feedback st @ evs \<and> (\<forall>x \<in> set evs. \<not> is_Finished (fst x)))
     \<and> set (p_calls (st_port st)) \<subseteq> set (p_calls (st_port st'))
     \<and> (st_shut_wr st \<longrightarrow> st_shut_wr st')
     \<and> (\<exists>k. st_tasks st' = drop k (st_tasks st))"

definition finish_msg :: json where
  "finish_msg = JDict [(''type'', JStr ''finish'')]"

definition sent_finish :: "env \<Rightarrow> state \<Rightarrow> bool" where
  "sent_finish env st \<longleftrightarrow>
     st_shut_wr st \<and> (\<exists>nonce. Encrypt (e_dumps env finish_msg) nonce \<in> set (p_calls (st_port st)))"

section \<open>A concrete setting\<close>

text \<open>
  For the examples: a box that prefixes the message with the nonce and checks the
  prefix on decryption, and a socket on which nothing has arrived yet.
\<close>

definition tag_box :: box where
  "tag_box =
     \<lparr>box_encrypt = (\<lambda>msg nonce. Inr (nonce @ msg)),
      box_decrypt = (\<lambda>data nonce.
         if take (length nonce) data = nonce then Inr (drop (length nonce) data)
         else Inl (LibError ''CryptoError''))\<rparr>"

definition idle_sock :: sock where
  "idle_sock = \<lparr>s_in = [], s_chunks = [], s_out = []\<rparr>"

text \<open>
  PyNaCl's \<open>Box.encrypt\<close> and \<open>Box.decrypt\<close> begin by comparing the length of the nonce
  with \<open>Box.NONCE_SIZE\<close>, which is 24, and raise \<open>ValueError\<close> when it differs.
  \<open>nacl_checked b\<close> is a box with that check in front of \<open>b\<close>.
\<close>

definition nacl_checked :: "box \<Rightarrow> box" where
  "nacl_checked b =
     \<lparr>box_encrypt = (\<lambda>msg nonce.
         if length nonce \<noteq> 24 then Inl (ValueError ''The nonce must be exactly 24 bytes long'')
         else box_encrypt b msg nonce),
      box_decrypt = (\<lambda>data nonce.
         if length nonce \<noteq> 24 then Inl (ValueError ''The nonce must be exactly 24 bytes long'')
         else box_decrypt b data nonce)\<rparr>"

text \<open>
  A server to run against: \<open>demo_frame r body\<close> is the frame that \<open>tag_box\<close> accepts at
  receive counter \<open>r\<close>; \<open>demo_loads\<close> decodes a few one-byte messages; \<open>demo_env\<close> connects
  to a socket that delivers the given bytes; \<open>demo_stream\<close> is a whole session (the
  handshake reply, the placeholder message, the capabilities, the compile result, then
  \<open>need_work\<close>, a result with its source, a result without, and \<open>finish\<close>).
\<close>

definition demo_frame :: "nat \<Rightarrow> bytes \<Rightarrow> bytes" where
  "demo_frame r body = be_bytes 8 (32 + length body) @ nonce_of r @ body"

definition demo_loads :: "bytes \<Rightarrow> exn + json" where
  "demo_loads b =
     (if b = [1] then
        Inr (JDict [(''min_priority'', JFloat (Finite 5)), (''num_cpus'', JFloat (Finite 4))])
      else if b = [2] then
        Inr (JDict [(''success'', JBool True),
                    (''perm_bases'', JList [JDict [(''base_score'', JInt 100),
                                                   (''base_hash'', JStr ''abc'')]])])
      else if b = [3] then Inr (JDict [(''type'', JStr ''finish'')])
      else if b = [4] then Inr (JDict [(''type'', JStr ''need_work'')])
      else if b = [5] then
        Inr (JDict [(''type'', JStr ''result''), (''permuter'', JInt 0), (''score'', JInt 7),
                    (''hash'', JStr ''h1''), (''profiler'', JDict []),
                    (''has_source'', JBool True)])
      else if b = [6] then
        Inr (JDict [(''type'', JStr ''result''), (''permuter'', JInt 0), (''score'', JInt 9),
                    (''hash'', JStr ''h2''), (''profiler'', JDict [])])
      else if b = [9] then
        Inr (JDict [(''min_priority'', JInt 5), (''num_cpus'', JInt 4)])
      else if b = [10] then
        Inr (JDict [(''success'', JBool True),
                    (''perm_bases'', JList [JDict [(''base_score'', JInt 99),
                                                   (''base_hash'', JStr ''abc'')]])])
      else if b = [11] then
        Inr (JDict [(''success'', JBool True),
                    (''perm_bases'', JList [JDict [(''base_score'', JInt 100),
                                                   (''base_hash'', JStr ''xyz'')]])])
      else Inl (LibError ''JSONDecodeError''))"

definition demo_format :: "json \<Rightarrow> string" where
  "demo_format v =
     (case v of
        JInt i \<Rightarrow> (if i = 99 then ''99'' else if i = 100 then ''100'' else ''int'')
      | JFloat x \<Rightarrow> (if x = Finite 5 then ''5.0'' else ''float'')
      | _ \<Rightarrow> type_name v)"

definition demo_env :: "bytes \<Rightarrow> env" where
  "demo_env incoming =
     \<lparr>e_connect = Inr \<lparr>s_in = incoming, s_chunks = [], s_out = []\<rparr>,
      e_hello = [],
      e_verify_with_magic = (\<lambda>msg. Inr msg),
      e_make_box = (\<lambda>key. Inr tag_box),
      e_loads = demo_loads,
      e_dumps = (\<lambda>msg. []),
      e_decompress = (\<lambda>b. Inr b),
      e_decode = (\<lambda>b. Inr ''src''),
      e_exception_to_string = (\<lambda>e. case e of Exception s \<Rightarrow> s | ValueError s \<Rightarrow> s
                                        | _ \<Rightarrow> ''exception''),
      e_json_array = (\<lambda>v t. case v of JList l \<Rightarrow> Inr l | _ \<Rightarrow> Inl (ValueError ''list'')),
      e_is_stat = (\<lambda>k. True),
      e_format = demo_format\<rparr>"

definition demo_permuter :: permuter where
  "demo_permuter =
     \<lparr>fn_name = ''f'', filename = ''f.c'', keep_prob = Finite 0, stack_differences = False,
      compressed_source = [], base_score = 100, base_hash = ''abc'', target_o_bin = [],
      compile_script = ''''\<rparr>"

definition demo_conn :: "pyfloat \<Rightarrow> conn" where
  "demo_conn prio =
     \<lparr>c_priority = prio, c_grant = [], c_permuters = [demo_permuter], c_nickname = ''srv''\<rparr>"

definition demo_stream :: bytes where
  "demo_stream =
     replicate 103 0 @ demo_frame 1 [0] @ demo_frame 3 [1] @ demo_frame 5 [2]
     @ demo_frame 7 [4] @ demo_frame 9 [5] @ demo_frame 11 [7] @ demo_frame 13 [6]
     @ demo_frame 15 [3]"


definition loop_entry :: "bytes \<Rightarrow> task list \<Rightarrow> state" where
  "loop_entry incoming tasks =
     \<lparr>st_port = Port \<lparr>s_in = incoming, s_chunks = [], s_out = []\<rparr> tag_box True,
      st_tasks = tasks, st_feedback = [], st_shut_wr = False\<rparr>"


definition result_with_source :: json where
  "result_with_source =
     JDict [(''type'', JStr ''result''), (''permuter'', JInt 0), (''score'', JInt 7),
            (''hash'', JStr ''h1''), (''profiler'', JDict []), (''has_source'', JBool True)]"

definition result_without_source :: json where
  "result_without_source =
     JDict [(''type'', JStr ''result''), (''permuter'', JInt 0), (''score'', JInt 9),
            (''hash'', JStr ''h2''), (''profiler'', JDict [])]"

text \<open>
  \<open>decline_stream\<close> is a session in which the server asks for priority 5 and nothing
  follows; \<open>declared_server\<close> is a \<open>RemoteServer\<close> built from its three fields.
\<close>

definition decline_stream :: bytes where
  "decline_stream = replicate 103 0 @ demo_frame 1 [0] @ demo_frame 3 [1]"

definition declared_server :: remote_server where
  "declared_server = \<lparr>rs_ip = ''127.0.0.1'', rs_port = 8000, rs_ver_key = []\<rparr>"

text \<open>
  \<open>two_frames\<close> is a socket on which the server's first two frames arrive, the first
  \<open>recv\<close> returning 3 bytes and the second 1.
\<close>

definition two_frames :: sock where
  "two_frames = \<lparr>s_in = demo_frame 1 [5] @ demo_frame 3 [6], s_chunks = [3, 1], s_out = []\<rparr>"

section \<open>The counters of a port\<close>

text \<open>
  What one send and one receive do to the counters and to the trace of box calls, and
  the invariant that follows for any sequence of them.
\<close>

lemma be_bytes_length: "length (be_bytes k n) = k"
  by (induction k arbitrary: n) auto

lemma pack_24xQ_Inr:
  "pack_24xQ v = Inr nonce \<longleftrightarrow> 0 \<le> v \<and> v < 2 ^ 64 \<and> nonce = nonce_of (nat v)"
  by (auto simp: pack_24xQ_def pack_Q_def nonce_of_def)

lemma pack_24xQ_Inl:
  "pack_24xQ v = Inl e \<longleftrightarrow> \<not> (0 \<le> v \<and> v < 2 ^ 64) \<and> e = StructError"
  by (auto simp: pack_24xQ_def pack_Q_def)

lemma nonce_of_length: "length (nonce_of n) = 32"
  by (simp add: nonce_of_def be_bytes_length)

lemma nonce_of_pad: "take 24 (nonce_of n) = replicate 24 0"
  by (simp add: nonce_of_def)

lemma nonce_counter_nonce_of: "n < 2 ^ 64 \<Longrightarrow> nonce_counter (nonce_of n) = n"
  by (simp add: nonce_of_def nonce_counter_def be_nat_be_bytes)

lemma enc_nonces_append: "enc_nonces (xs @ ys) = enc_nonces xs @ enc_nonces ys"
  by (induction xs rule: enc_nonces.induct) auto

lemma dec_nonces_append: "dec_nonces (xs @ ys) = dec_nonces xs @ dec_nonces ys"
  by (induction xs rule: dec_nonces.induct) auto

lemma send_effect:
  "(0 \<le> p_send_nonce p \<and> p_send_nonce p < 2 ^ 64
      \<and> p_send_nonce (snd (send p msg)) = p_send_nonce p + 2
      \<and> p_calls (snd (send p msg)) = p_calls p @ [Encrypt msg (nonce_of (nat (p_send_nonce p)))])
   \<or> (\<not> (0 \<le> p_send_nonce p \<and> p_send_nonce p < 2 ^ 64)
      \<and> fst (send p msg) = Inl StructError \<and> snd (send p msg) = p)"
proof (cases "0 \<le> p_send_nonce p \<and> p_send_nonce p < 2 ^ 64")
  case True
  then have "pack_24xQ (p_send_nonce p) = Inr (nonce_of (nat (p_send_nonce p)))"
    by (simp add: pack_24xQ_Inr)
  with True show ?thesis
    by (auto simp: send_def Let_def split: sum.splits)
next
  case False
  then have "pack_24xQ (p_send_nonce p) = Inl StructError"
    by (simp add: pack_24xQ_Inl)
  with False show ?thesis by (simp add: send_def)
qed

lemma send_receive_nonce: "p_receive_nonce (snd (send p msg)) = p_receive_nonce p"
  by (simp add: send_def Let_def split: sum.splits)

lemma receive_send_nonce: "p_send_nonce (snd (receive p)) = p_send_nonce p"
  by (simp add: receive_def Let_def split: sum.splits prod.splits)

lemma receive_effect:
  "(0 \<le> p_receive_nonce p \<and> p_receive_nonce p < 2 ^ 64
      \<and> p_receive_nonce (snd (receive p)) = p_receive_nonce p + 2
      \<and> (\<exists>data. p_calls (snd (receive p))
            = p_calls p @ [Decrypt data (nonce_of (nat (p_receive_nonce p)))]))
   \<or> ((fst (receive p) = Inl (Exception ''eof'')
        \<or> \<not> (0 \<le> p_receive_nonce p \<and> p_receive_nonce p < 2 ^ 64)
           \<and> fst (receive p) = Inl StructError)
      \<and> p_receive_nonce (snd (receive p)) = p_receive_nonce p
      \<and> p_calls (snd (receive p)) = p_calls p)"
proof -
  obtain r1 s1 where r1: "socket_read_fixed (p_sock p) 8 [] = (r1, s1)"
    by (cases "socket_read_fixed (p_sock p) 8 []")
  show ?thesis
  proof (cases r1)
    case (Inl e)
    with srf_cases[of 8 "p_sock p" "[]"] r1 have "e = Exception ''eof''" by auto
    with r1 Inl show ?thesis by (simp add: receive_def)
  next
    case (Inr ld)
    obtain r2 s2 where r2: "socket_read_fixed s1 (unpack_Q ld) [] = (r2, s2)"
      by (cases "socket_read_fixed s1 (unpack_Q ld) []")
    show ?thesis
    proof (cases r2)
      case (Inl e)
      with srf_cases[of "unpack_Q ld" s1 "[]"] r2 have "e = Exception ''eof''" by auto
      with r1 Inr r2 Inl show ?thesis by (simp add: receive_def)
    next
      case data: (Inr data)
      show ?thesis
      proof (cases "0 \<le> p_receive_nonce p \<and> p_receive_nonce p < 2 ^ 64")
        case True
        then have "pack_24xQ (p_receive_nonce p) = Inr (nonce_of (nat (p_receive_nonce p)))"
          by (simp add: pack_24xQ_Inr)
        with True r1 Inr r2 data show ?thesis
          by (auto simp: receive_def Let_def split: sum.splits)
      next
        case False
        then have "pack_24xQ (p_receive_nonce p) = Inl StructError"
          by (simp add: pack_24xQ_Inl)
        with False r1 Inr r2 data show ?thesis by (simp add: receive_def)
      qed
    qed
  qed
qed

lemma counted_Port: "counted (if ic then 0 else 1) (if ic then 1 else 0) (Port sk bx ic)"
  unfolding counted_def by (rule exI[of _ 0], rule exI[of _ 0]) (simp add: Port_def)

lemma counted_send:
  assumes "counted s0 r0 p"
  shows "counted s0 r0 (snd (send p msg))"
proof -
  from assms obtain ns nr where h:
    "p_send_nonce p = int (s0 + 2 * ns)" "p_receive_nonce p = int (r0 + 2 * nr)"
    "enc_nonces (p_calls p) = map (\<lambda>k. nonce_of (s0 + 2 * k)) [0..<ns]"
    "dec_nonces (p_calls p) = map (\<lambda>k. nonce_of (r0 + 2 * k)) [0..<nr]"
    "\<forall>k<ns. s0 + 2 * k < 2 ^ 64" "\<forall>k<nr. r0 + 2 * k < 2 ^ 64"
    unfolding counted_def by blast
  from send_effect[of p msg] show ?thesis
  proof
    assume a: "0 \<le> p_send_nonce p \<and> p_send_nonce p < 2 ^ 64
      \<and> p_send_nonce (snd (send p msg)) = p_send_nonce p + 2
      \<and> p_calls (snd (send p msg)) = p_calls p @ [Encrypt msg (nonce_of (nat (p_send_nonce p)))]"
    have lt: "s0 + 2 * ns < 2 ^ 64"
    proof -
      from a h(1) have "int (s0 + 2 * ns) < 2 ^ 64" by simp
      then show ?thesis by (metis of_nat_less_iff of_nat_numeral of_nat_power)
    qed
    have b: "\<forall>k<Suc ns. s0 + 2 * k < 2 ^ 64" using h(5) lt by (auto simp: less_Suc_eq)
    have n: "nat (p_send_nonce p) = s0 + 2 * ns" using h(1) by simp
    show ?thesis unfolding counted_def
      by (rule exI[of _ "Suc ns"], rule exI[of _ nr])
         (use a h b n in \<open>simp add: enc_nonces_append dec_nonces_append send_receive_nonce\<close>)
  next
    assume "\<not> (0 \<le> p_send_nonce p \<and> p_send_nonce p < 2 ^ 64)
      \<and> fst (send p msg) = Inl StructError \<and> snd (send p msg) = p"
    with assms show ?thesis by simp
  qed
qed

lemma counted_receive:
  assumes "counted s0 r0 p"
  shows "counted s0 r0 (snd (receive p))"
proof -
  from assms obtain ns nr where h:
    "p_send_nonce p = int (s0 + 2 * ns)" "p_receive_nonce p = int (r0 + 2 * nr)"
    "enc_nonces (p_calls p) = map (\<lambda>k. nonce_of (s0 + 2 * k)) [0..<ns]"
    "dec_nonces (p_calls p) = map (\<lambda>k. nonce_of (r0 + 2 * k)) [0..<nr]"
    "\<forall>k<ns. s0 + 2 * k < 2 ^ 64" "\<forall>k<nr. r0 + 2 * k < 2 ^ 64"
    unfolding counted_def by blast
  from receive_effect[of p] show ?thesis
  proof
    assume a: "0 \<le> p_receive_nonce p \<and> p_receive_nonce p < 2 ^ 64
      \<and> p_receive_nonce (snd (receive p)) = p_receive_nonce p + 2
      \<and> (\<exists>data. p_calls (snd (receive p))
            = p_calls p @ [Decrypt data (nonce_of (nat (p_receive_nonce p)))])"
    then obtain data where d: "p_calls (snd (receive p))
            = p_calls p @ [Decrypt data (nonce_of (nat (p_receive_nonce p)))]" by blast
    have lt: "r0 + 2 * nr < 2 ^ 64"
    proof -
      from a h(2) have "int (r0 + 2 * nr) < 2 ^ 64" by simp
      then show ?thesis by (metis of_nat_less_iff of_nat_numeral of_nat_power)
    qed
    have b: "\<forall>k<Suc nr. r0 + 2 * k < 2 ^ 64" using h(6) lt by (auto simp: less_Suc_eq)
    have n: "nat (p_receive_nonce p) = r0 + 2 * nr" using h(2) by simp
    show ?thesis unfolding counted_def
      by (rule exI[of _ ns], rule exI[of _ "Suc nr"])
         (use a d h b n in \<open>simp add: enc_nonces_append dec_nonces_append receive_send_nonce\<close>)
  next
    assume a: "(fst (receive p) = Inl (Exception ''eof'')
        \<or> \<not> (0 \<le> p_receive_nonce p \<and> p_receive_nonce p < 2 ^ 64)
           \<and> fst (receive p) = Inl StructError)
      \<and> p_receive_nonce (snd (receive p)) = p_receive_nonce p
      \<and> p_calls (snd (receive p)) = p_calls p"
    show ?thesis unfolding counted_def
      by (rule exI[of _ ns], rule exI[of _ nr]) (use a h in \<open>simp add: receive_send_nonce\<close>)
  qed
qed

lemma counted_run_ops: "counted s0 r0 p \<Longrightarrow> counted s0 r0 (run_ops p ops)"
  by (induction p ops rule: run_ops.induct) (auto intro: counted_send counted_receive)

lemma counted_nonces:
  assumes "counted s0 r0 p" and par: "even s0 \<longleftrightarrow> odd r0"
  shows "sorted_wrt (<) (map nonce_counter (enc_nonces (p_calls p)))
       \<and> distinct (enc_nonces (p_calls p))
       \<and> set (enc_nonces (p_calls p)) \<inter> set (dec_nonces (p_calls p)) = {}
       \<and> (\<forall>n \<in> set (enc_nonces (p_calls p)). even (nonce_counter n) = even s0)
       \<and> (\<forall>n \<in> set (dec_nonces (p_calls p)). even (nonce_counter n) = even r0)"
proof -
  from assms obtain ns nr where h:
    "enc_nonces (p_calls p) = map (\<lambda>k. nonce_of (s0 + 2 * k)) [0..<ns]"
    "dec_nonces (p_calls p) = map (\<lambda>k. nonce_of (r0 + 2 * k)) [0..<nr]"
    "\<forall>k<ns. s0 + 2 * k < 2 ^ 64" "\<forall>k<nr. r0 + 2 * k < 2 ^ 64"
    unfolding counted_def by blast
  have ce: "map nonce_counter (enc_nonces (p_calls p)) = map (\<lambda>k. s0 + 2 * k) [0..<ns]"
    using h(1,3) by (simp add: nonce_counter_nonce_of)
  have cd: "map nonce_counter (dec_nonces (p_calls p)) = map (\<lambda>k. r0 + 2 * k) [0..<nr]"
    using h(2,4) by (simp add: nonce_counter_nonce_of)
  have s: "sorted_wrt (<) (map nonce_counter (enc_nonces (p_calls p)))"
    unfolding ce by (simp add: sorted_wrt_map sorted_wrt_upt)
  then have "distinct (map nonce_counter (enc_nonces (p_calls p)))"
    by (simp add: strict_sorted_iff)
  then have d: "distinct (enc_nonces (p_calls p))" by (simp add: distinct_map)
  have pe: "\<forall>n \<in> set (enc_nonces (p_calls p)). even (nonce_counter n) = even s0"
    using h(1,3) by (auto simp: nonce_counter_nonce_of)
  have pd: "\<forall>n \<in> set (dec_nonces (p_calls p)). even (nonce_counter n) = even r0"
    using h(2,4) by (auto simp: nonce_counter_nonce_of)
  have "set (enc_nonces (p_calls p)) \<inter> set (dec_nonces (p_calls p)) = {}"
    using pe pd par by blast
  with s d pe pd show ?thesis by blast
qed

text \<open>
  What \<open>receive\<close> does is decided by the stream: with a whole frame to come it reads
  the frame, takes its nonce and calls the box; otherwise it raises at the short read,
  before the nonce is taken.
\<close>

lemma receive_no_frame:
  assumes "\<not> frame_ready p"
  shows "fst (receive p) = Inl (Exception ''eof'')
       \<and> p_receive_nonce (snd (receive p)) = p_receive_nonce p
       \<and> p_calls (snd (receive p)) = p_calls p"
proof -
  obtain r1 s1 where r1: "socket_read_fixed (p_sock p) 8 [] = (r1, s1)"
    by (cases "socket_read_fixed (p_sock p) 8 []")
  show ?thesis
  proof (cases "8 \<le> length (s_in (p_sock p))")
    case False
    then have "fst (socket_read_fixed (p_sock p) 8 []) = Inl (Exception ''eof'')"
      by (intro srf_eof) simp
    with r1 have "r1 = Inl (Exception ''eof'')" by simp
    with r1 show ?thesis by (simp add: receive_def)
  next
    case True
    from srf_ok[OF True, of "[]"] r1 have
      a: "r1 = Inr (take 8 (s_in (p_sock p)))" and b: "s_in s1 = drop 8 (s_in (p_sock p))"
      by simp_all
    let ?n = "unpack_Q (take 8 (s_in (p_sock p)))"
    obtain r2 s2 where r2: "socket_read_fixed s1 ?n [] = (r2, s2)"
      by (cases "socket_read_fixed s1 ?n []")
    from assms True have "\<not> 8 + ?n \<le> length (s_in (p_sock p))"
      by (simp add: frame_ready_def inlen_def)
    with True have "length (s_in s1) < ?n" unfolding b length_drop by linarith
    then have "fst (socket_read_fixed s1 ?n []) = Inl (Exception ''eof'')"
      by (rule srf_eof)
    with r2 have "r2 = Inl (Exception ''eof'')" by simp
    with r1 a r2 show ?thesis by (simp add: receive_def)
  qed
qed

lemma receive_frame:
  assumes "frame_ready p"
  shows "(0 \<le> p_receive_nonce p \<and> p_receive_nonce p < 2 ^ 64 \<longrightarrow>
           p_receive_nonce (snd (receive p)) = p_receive_nonce p + 2
           \<and> p_calls (snd (receive p)) = p_calls p @
               [Decrypt (take (unpack_Q (take 8 (s_in (p_sock p)))) (drop 8 (s_in (p_sock p))))
                        (nonce_of (nat (p_receive_nonce p)))]
           \<and> fst (receive p) = box_decrypt (p_box p)
               (take (unpack_Q (take 8 (s_in (p_sock p)))) (drop 8 (s_in (p_sock p))))
               (nonce_of (nat (p_receive_nonce p))))
       \<and> (\<not> (0 \<le> p_receive_nonce p \<and> p_receive_nonce p < 2 ^ 64) \<longrightarrow>
           fst (receive p) = Inl StructError
           \<and> p_receive_nonce (snd (receive p)) = p_receive_nonce p
           \<and> p_calls (snd (receive p)) = p_calls p)"
proof -
  obtain r1 s1 where r1: "socket_read_fixed (p_sock p) 8 [] = (r1, s1)"
    by (cases "socket_read_fixed (p_sock p) 8 []")
  from assms have True: "8 \<le> length (s_in (p_sock p))" by (simp add: frame_ready_def inlen_def)
  from srf_ok[OF True, of "[]"] r1 have
    a: "r1 = Inr (take 8 (s_in (p_sock p)))" and b: "s_in s1 = drop 8 (s_in (p_sock p))"
    by simp_all
  let ?n = "unpack_Q (take 8 (s_in (p_sock p)))"
  obtain r2 s2 where r2: "socket_read_fixed s1 ?n [] = (r2, s2)"
    by (cases "socket_read_fixed s1 ?n []")
  from assms have "8 + ?n \<le> length (s_in (p_sock p))"
    by (simp add: frame_ready_def inlen_def)
  then have "?n \<le> length (s_in s1)" unfolding b length_drop by linarith
  from srf_ok[OF this, of "[]"] r2 b have
    c: "r2 = Inr (take ?n (drop 8 (s_in (p_sock p))))" by simp
  show ?thesis
  proof (cases "0 \<le> p_receive_nonce p \<and> p_receive_nonce p < 2 ^ 64")
    case True
    then have "pack_24xQ (p_receive_nonce p) = Inr (nonce_of (nat (p_receive_nonce p)))"
      by (simp add: pack_24xQ_Inr)
    with True r1 a r2 c show ?thesis
      by (simp add: receive_def Let_def split: sum.splits)
  next
    case False
    then have "pack_24xQ (p_receive_nonce p) = Inl StructError"
      by (simp add: pack_24xQ_Inl)
    with False r1 a r2 c show ?thesis
      by (simp add: receive_def Let_def)
  qed
qed

lemma counted_lengths:
  assumes "counted s0 r0 p"
  shows "enc_nonces (p_calls p) = map (\<lambda>k. nonce_of (s0 + 2 * k)) [0..<length (enc_nonces (p_calls p))]
       \<and> dec_nonces (p_calls p) = map (\<lambda>k. nonce_of (r0 + 2 * k)) [0..<length (dec_nonces (p_calls p))]
       \<and> p_send_nonce p = int (s0 + 2 * length (enc_nonces (p_calls p)))
       \<and> p_receive_nonce p = int (r0 + 2 * length (dec_nonces (p_calls p)))"
proof -
  from assms obtain ns nr where h:
    "p_send_nonce p = int (s0 + 2 * ns)" "p_receive_nonce p = int (r0 + 2 * nr)"
    "enc_nonces (p_calls p) = map (\<lambda>k. nonce_of (s0 + 2 * k)) [0..<ns]"
    "dec_nonces (p_calls p) = map (\<lambda>k. nonce_of (r0 + 2 * k)) [0..<nr]"
    unfolding counted_def by blast
  from h(3) have ls: "length (enc_nonces (p_calls p)) = ns" by simp
  from h(4) have lr: "length (dec_nonces (p_calls p)) = nr" by simp
  from h ls lr show ?thesis by simp
qed

section \<open>The claims about the port\<close>

text \<open>
  C2. A port built with \<open>is_client=True\<close> starts with send counter 0 and receive counter
  1, and with the two swapped otherwise. A send whose counter fits the 8 bytes of the
  nonce advances the send counter by exactly 2, passes the nonce of the old counter to
  the box and leaves the receive counter, whether or not the box then raises. A
  receive that finds a whole frame on the stream advances the receive counter by
  exactly 2, passes the nonce of the old counter to the box and leaves the send
  counter, whether or not the box then raises; a receive that finds less raises at the
  short read and takes no nonce. So for any sequence of sends and receives on one port,
  exceptions included, the nonces sent are those of the counters \<open>s0, s0 + 2, ...\<close> and
  the nonces received those of \<open>r0, r0 + 2, ...\<close>, where \<open>s0\<close> and \<open>r0\<close> are the two
  initial counters: the send nonces are strictly increasing, pairwise different and
  disjoint from the receive nonces.
\<close>

theorem port_counters_separate:
  "p_send_nonce (Port sk bx True) = 0 \<and> p_receive_nonce (Port sk bx True) = 1
   \<and> p_send_nonce (Port sk bx False) = 1 \<and> p_receive_nonce (Port sk bx False) = 0
   \<and> (0 \<le> p_send_nonce q \<and> p_send_nonce q < 2 ^ 64 \<longrightarrow>
        p_send_nonce (snd (send q msg)) = p_send_nonce q + 2
        \<and> p_receive_nonce (snd (send q msg)) = p_receive_nonce q
        \<and> enc_nonces (p_calls (snd (send q msg)))
            = enc_nonces (p_calls q) @ [nonce_of (nat (p_send_nonce q))]
        \<and> dec_nonces (p_calls (snd (send q msg))) = dec_nonces (p_calls q))
   \<and> (frame_ready q \<and> 0 \<le> p_receive_nonce q \<and> p_receive_nonce q < 2 ^ 64 \<longrightarrow>
        p_receive_nonce (snd (receive q)) = p_receive_nonce q + 2
        \<and> p_send_nonce (snd (receive q)) = p_send_nonce q
        \<and> dec_nonces (p_calls (snd (receive q)))
            = dec_nonces (p_calls q) @ [nonce_of (nat (p_receive_nonce q))]
        \<and> enc_nonces (p_calls (snd (receive q))) = enc_nonces (p_calls q))
   \<and> (\<not> frame_ready q \<longrightarrow>
        fst (receive q) = Inl (Exception ''eof'')
        \<and> p_receive_nonce (snd (receive q)) = p_receive_nonce q
        \<and> p_send_nonce (snd (receive q)) = p_send_nonce q
        \<and> p_calls (snd (receive q)) = p_calls q)
   \<and> (let p = run_ops (Port sk bx is_client) ops;
           sent = enc_nonces (p_calls p); received = dec_nonces (p_calls p);
           s0 = (if is_client then 0 else 1); r0 = (if is_client then 1 else 0)
       in sent = map (\<lambda>k. nonce_of (s0 + 2 * k)) [0..<length sent]
          \<and> received = map (\<lambda>k. nonce_of (r0 + 2 * k)) [0..<length received]
          \<and> p_send_nonce p = int (s0 + 2 * length sent)
          \<and> p_receive_nonce p = int (r0 + 2 * length received)
          \<and> sorted_wrt (<) (map nonce_counter sent) \<and> distinct sent
          \<and> set sent \<inter> set received = {}
          \<and> (\<forall>n \<in> set sent. even (nonce_counter n) = is_client)
          \<and> (\<forall>n \<in> set received. odd (nonce_counter n) = is_client))"
proof -
  have init: "p_send_nonce (Port sk bx True) = 0 \<and> p_receive_nonce (Port sk bx True) = 1
     \<and> p_send_nonce (Port sk bx False) = 1 \<and> p_receive_nonce (Port sk bx False) = 0"
    by (simp add: Port_def)
  have snd_step: "0 \<le> p_send_nonce q \<and> p_send_nonce q < 2 ^ 64 \<longrightarrow>
        p_send_nonce (snd (send q msg)) = p_send_nonce q + 2
        \<and> p_receive_nonce (snd (send q msg)) = p_receive_nonce q
        \<and> enc_nonces (p_calls (snd (send q msg)))
            = enc_nonces (p_calls q) @ [nonce_of (nat (p_send_nonce q))]
        \<and> dec_nonces (p_calls (snd (send q msg))) = dec_nonces (p_calls q)"
    using send_effect[of q msg]
    by (auto simp: send_receive_nonce enc_nonces_append dec_nonces_append)
  have rcv_step: "frame_ready q \<and> 0 \<le> p_receive_nonce q \<and> p_receive_nonce q < 2 ^ 64 \<longrightarrow>
        p_receive_nonce (snd (receive q)) = p_receive_nonce q + 2
        \<and> p_send_nonce (snd (receive q)) = p_send_nonce q
        \<and> dec_nonces (p_calls (snd (receive q)))
            = dec_nonces (p_calls q) @ [nonce_of (nat (p_receive_nonce q))]
        \<and> enc_nonces (p_calls (snd (receive q))) = enc_nonces (p_calls q)"
    using receive_frame[of q]
    by (auto simp: receive_send_nonce enc_nonces_append dec_nonces_append)
  have rcv_eof: "\<not> frame_ready q \<longrightarrow>
        fst (receive q) = Inl (Exception ''eof'')
        \<and> p_receive_nonce (snd (receive q)) = p_receive_nonce q
        \<and> p_send_nonce (snd (receive q)) = p_send_nonce q
        \<and> p_calls (snd (receive q)) = p_calls q"
    using receive_no_frame[of q] by (simp add: receive_send_nonce)
  let ?s0 = "if is_client then 0 else 1 :: nat"
  let ?r0 = "if is_client then 1 else 0 :: nat"
  have cnt: "counted ?s0 ?r0 (run_ops (Port sk bx is_client) ops)"
    by (rule counted_run_ops, rule counted_Port)
  from counted_nonces[OF cnt] counted_lengths[OF cnt]
  have tr: "let p = run_ops (Port sk bx is_client) ops;
           sent = enc_nonces (p_calls p); received = dec_nonces (p_calls p);
           s0 = (if is_client then 0 else 1); r0 = (if is_client then 1 else 0)
       in sent = map (\<lambda>k. nonce_of (s0 + 2 * k)) [0..<length sent]
          \<and> received = map (\<lambda>k. nonce_of (r0 + 2 * k)) [0..<length received]
          \<and> p_send_nonce p = int (s0 + 2 * length sent)
          \<and> p_receive_nonce p = int (r0 + 2 * length received)
          \<and> sorted_wrt (<) (map nonce_counter sent) \<and> distinct sent
          \<and> set sent \<inter> set received = {}
          \<and> (\<forall>n \<in> set sent. even (nonce_counter n) = is_client)
          \<and> (\<forall>n \<in> set received. odd (nonce_counter n) = is_client)"
    by (cases is_client) (simp_all add: Let_def)
  from init snd_step rcv_step rcv_eof tr show ?thesis by blast
qed

text \<open>
  On \<open>two_frames\<close>: two sends and two receives that succeed, then a receive at the end of
  the stream.
\<close>

lemma two_frames_ready: "frame_ready (Port two_frames tag_box True)"
  by code_simp

lemma idle_not_ready: "\<not> frame_ready (Port idle_sock tag_box True)"
  by code_simp

lemma two_frames_trace:
  "enc_nonces (p_calls (run_ops (Port two_frames tag_box True)
       [OpSend [1], OpReceive, OpSend [2, 3], OpReceive, OpReceive]))
     = [nonce_of 0, nonce_of 2]
   \<and> dec_nonces (p_calls (run_ops (Port two_frames tag_box True)
       [OpSend [1], OpReceive, OpSend [2, 3], OpReceive, OpReceive]))
     = [nonce_of 1, nonce_of 3]
   \<and> fst (receive (Port two_frames tag_box True)) = Inr [5]"
  by code_simp


theorem port_counters_separate_witness:
  "fst (receive (Port two_frames tag_box True)) = Inr [5]
   \<and> p_receive_nonce (snd (receive (Port two_frames tag_box True))) = 3
   \<and> p_send_nonce (snd (receive (Port two_frames tag_box True))) = 0
   \<and> dec_nonces (p_calls (snd (receive (Port two_frames tag_box True)))) = [nonce_of 1]
   \<and> p_send_nonce (snd (send (Port two_frames tag_box True) [1])) = 2
   \<and> p_receive_nonce (snd (send (Port two_frames tag_box True) [1])) = 1
   \<and> enc_nonces (p_calls (snd (send (Port two_frames tag_box True) [1]))) = [nonce_of 0]
   \<and> fst (receive (Port idle_sock tag_box True)) = Inl (Exception ''eof'')
   \<and> p_receive_nonce (snd (receive (Port idle_sock tag_box True))) = 1
   \<and> enc_nonces (p_calls (run_ops (Port two_frames tag_box True)
         [OpSend [1], OpReceive, OpSend [2, 3], OpReceive, OpReceive]))
       = [nonce_of 0, nonce_of 2]
   \<and> dec_nonces (p_calls (run_ops (Port two_frames tag_box True)
         [OpSend [1], OpReceive, OpSend [2, 3], OpReceive, OpReceive]))
       = [nonce_of 1, nonce_of 3]
   \<and> p_send_nonce (run_ops (Port two_frames tag_box True)
         [OpSend [1], OpReceive, OpSend [2, 3], OpReceive, OpReceive]) = 4
   \<and> p_receive_nonce (run_ops (Port two_frames tag_box True)
         [OpSend [1], OpReceive, OpSend [2, 3], OpReceive, OpReceive]) = 5
   \<and> set (enc_nonces (p_calls (run_ops (Port two_frames tag_box True)
         [OpSend [1], OpReceive, OpSend [2, 3], OpReceive, OpReceive])))
       \<inter> set (dec_nonces (p_calls (run_ops (Port two_frames tag_box True)
         [OpSend [1], OpReceive, OpSend [2, 3], OpReceive, OpReceive]))) = {}"
proof -
  let ?Q = "Port two_frames tag_box True"
  let ?I = "Port idle_sock tag_box True"
  let ?ops = "[OpSend [1], OpReceive, OpSend [2, 3], OpReceive, OpReceive]"
  note T = port_counters_separate[where sk = two_frames and bx = tag_box and q = ?Q
             and msg = "[1]" and is_client = True and ops = ?ops]
  note U = port_counters_separate[where sk = idle_sock and bx = tag_box and q = ?I
             and msg = "[1]" and is_client = True and ops = "[]"]
  have q0: "p_send_nonce ?Q = 0" "p_receive_nonce ?Q = 1" "p_calls ?Q = []"
    "p_receive_nonce ?I = 1"
    by (simp_all add: Port_def)
  have rng: "0 \<le> p_send_nonce ?Q \<and> p_send_nonce ?Q < 2 ^ 64"
       "frame_ready ?Q \<and> 0 \<le> p_receive_nonce ?Q \<and> p_receive_nonce ?Q < 2 ^ 64"
    using two_frames_ready by (simp_all add: q0)
  from T rng(2) have
    "p_receive_nonce (snd (receive ?Q)) = p_receive_nonce ?Q + 2
     \<and> p_send_nonce (snd (receive ?Q)) = p_send_nonce ?Q
     \<and> dec_nonces (p_calls (snd (receive ?Q)))
         = dec_nonces (p_calls ?Q) @ [nonce_of (nat (p_receive_nonce ?Q))]"
    by blast
  then have a: "p_receive_nonce (snd (receive ?Q)) = 3 \<and> p_send_nonce (snd (receive ?Q)) = 0
     \<and> dec_nonces (p_calls (snd (receive ?Q))) = [nonce_of 1]"
    by (simp add: q0)
  from T rng(1) have
    "p_send_nonce (snd (send ?Q [1])) = p_send_nonce ?Q + 2
     \<and> p_receive_nonce (snd (send ?Q [1])) = p_receive_nonce ?Q
     \<and> enc_nonces (p_calls (snd (send ?Q [1])))
         = enc_nonces (p_calls ?Q) @ [nonce_of (nat (p_send_nonce ?Q))]"
    by blast
  then have b: "p_send_nonce (snd (send ?Q [1])) = 2 \<and> p_receive_nonce (snd (send ?Q [1])) = 1
     \<and> enc_nonces (p_calls (snd (send ?Q [1]))) = [nonce_of 0]"
    by (simp add: q0)
  from U idle_not_ready have
    "fst (receive ?I) = Inl (Exception ''eof'')
     \<and> p_receive_nonce (snd (receive ?I)) = p_receive_nonce ?I"
    by blast
  then have c: "fst (receive ?I) = Inl (Exception ''eof'')
     \<and> p_receive_nonce (snd (receive ?I)) = 1"
    by (simp add: q0)
  from T have
    "p_send_nonce (run_ops ?Q ?ops) = int (0 + 2 * length (enc_nonces (p_calls (run_ops ?Q ?ops))))
     \<and> p_receive_nonce (run_ops ?Q ?ops)
         = int (1 + 2 * length (dec_nonces (p_calls (run_ops ?Q ?ops))))
     \<and> set (enc_nonces (p_calls (run_ops ?Q ?ops)))
         \<inter> set (dec_nonces (p_calls (run_ops ?Q ?ops))) = {}"
    unfolding Let_def if_True by blast
  with two_frames_trace have d:
    "p_send_nonce (run_ops ?Q ?ops) = 4 \<and> p_receive_nonce (run_ops ?Q ?ops) = 5
     \<and> set (enc_nonces (p_calls (run_ops ?Q ?ops)))
         \<inter> set (dec_nonces (p_calls (run_ops ?Q ?ops))) = {}"
    by simp
  from a b c d two_frames_trace show ?thesis by blast
qed


lemma nonce_counter_int: "0 \<le> v \<Longrightarrow> v < 2 ^ 64 \<Longrightarrow> int (nonce_counter (nonce_of (nat v))) = v"
proof -
  assume a: "0 \<le> v" "v < 2 ^ 64"
  then have "nat v < 2 ^ 64" by (simp add: nat_less_iff)
  then show ?thesis using a by (simp add: nonce_counter_nonce_of)
qed

text \<open>
  C1. What \<open>send\<close> puts on the wire is the 8-byte big-endian length of what the box
  returned, followed by it, and what \<open>receive\<close> returns is what the box makes of the
  frame it read. The nonce passed to the box is not 24 bytes long, though: the format
  \<open>">24xQ"\<close> gives 24 zero bytes followed by the 8 bytes of the counter, 32 bytes in
  all, in both directions.
\<close>

theorem port_nonce_has_32_bytes:
  "(0 \<le> p_send_nonce p \<and> p_send_nonce p < 2 ^ 64 \<longrightarrow>
      (\<exists>nonce. p_calls (snd (send p msg)) = p_calls p @ [Encrypt msg nonce]
         \<and> length nonce = 32 \<and> take 24 nonce = replicate 24 0
         \<and> int (nonce_counter nonce) = p_send_nonce p
         \<and> (\<forall>data. box_encrypt (p_box p) msg nonce = Inr data \<and> length data < 2 ^ 64 \<longrightarrow>
               fst (send p msg) = Inr ()
               \<and> s_out (p_sock (snd (send p msg)))
                   = s_out (p_sock p) @ be_bytes 8 (length data) @ data)))
   \<and> (0 \<le> p_receive_nonce p \<and> p_receive_nonce p < 2 ^ 64
        \<and> fst (receive p) \<noteq> Inl (Exception ''eof'') \<longrightarrow>
      (\<exists>data nonce. p_calls (snd (receive p)) = p_calls p @ [Decrypt data nonce]
         \<and> length nonce = 32 \<and> take 24 nonce = replicate 24 0
         \<and> int (nonce_counter nonce) = p_receive_nonce p
         \<and> fst (receive p) = box_decrypt (p_box p) data nonce))"
proof (intro conjI impI)
  assume r: "0 \<le> p_send_nonce p \<and> p_send_nonce p < 2 ^ 64"
  let ?n = "nonce_of (nat (p_send_nonce p))"
  have pk: "pack_24xQ (p_send_nonce p) = Inr ?n" using r by (simp add: pack_24xQ_Inr)
  have c: "p_calls (snd (send p msg)) = p_calls p @ [Encrypt msg ?n]"
    using pk by (simp add: send_def Let_def split: sum.splits)
  have w: "\<forall>data. box_encrypt (p_box p) msg ?n = Inr data \<and> length data < 2 ^ 64 \<longrightarrow>
               fst (send p msg) = Inr ()
               \<and> s_out (p_sock (snd (send p msg)))
                   = s_out (p_sock p) @ be_bytes 8 (length data) @ data"
  proof (intro allI impI)
    fix data assume d: "box_encrypt (p_box p) msg ?n = Inr data \<and> length data < 2 ^ 64"
    then have "int (length data) < 2 ^ 64"
      by (metis of_nat_less_iff of_nat_numeral of_nat_power)
    then have "pack_Q (int (length data)) = Inr (be_bytes 8 (length data))"
      by (simp add: pack_Q_def)
    with pk d show "fst (send p msg) = Inr ()
               \<and> s_out (p_sock (snd (send p msg)))
                   = s_out (p_sock p) @ be_bytes 8 (length data) @ data"
      by (simp add: send_def Let_def sendall_def)
  qed
  show "\<exists>nonce. p_calls (snd (send p msg)) = p_calls p @ [Encrypt msg nonce]
         \<and> length nonce = 32 \<and> take 24 nonce = replicate 24 0
         \<and> int (nonce_counter nonce) = p_send_nonce p
         \<and> (\<forall>data. box_encrypt (p_box p) msg nonce = Inr data \<and> length data < 2 ^ 64 \<longrightarrow>
               fst (send p msg) = Inr ()
               \<and> s_out (p_sock (snd (send p msg)))
                   = s_out (p_sock p) @ be_bytes 8 (length data) @ data)"
  proof (intro exI[of _ ?n] conjI)
    show "p_calls (snd (send p msg)) = p_calls p @ [Encrypt msg ?n]" by (rule c)
    show "length ?n = 32" by (rule nonce_of_length)
    show "take 24 ?n = replicate 24 0" by (rule nonce_of_pad)
    show "int (nonce_counter ?n) = p_send_nonce p" using r by (simp add: nonce_counter_int)
    show "\<forall>data. box_encrypt (p_box p) msg ?n = Inr data \<and> length data < 2 ^ 64 \<longrightarrow>
               fst (send p msg) = Inr ()
               \<and> s_out (p_sock (snd (send p msg)))
                   = s_out (p_sock p) @ be_bytes 8 (length data) @ data" by (rule w)
  qed
next
  assume r: "0 \<le> p_receive_nonce p \<and> p_receive_nonce p < 2 ^ 64
        \<and> fst (receive p) \<noteq> Inl (Exception ''eof'')"
  let ?n = "nonce_of (nat (p_receive_nonce p))"
  have pk: "pack_24xQ (p_receive_nonce p) = Inr ?n" using r by (simp add: pack_24xQ_Inr)
  obtain r1 s1 where r1: "socket_read_fixed (p_sock p) 8 [] = (r1, s1)"
    by (cases "socket_read_fixed (p_sock p) 8 []")
  obtain ld where ld: "r1 = Inr ld"
  proof (cases r1)
    case (Inl e)
    with srf_cases[of 8 "p_sock p" "[]"] r1 have "e = Exception ''eof''" by auto
    with r1 Inl r show ?thesis by (simp add: receive_def)
  qed
  obtain r2 s2 where r2: "socket_read_fixed s1 (unpack_Q ld) [] = (r2, s2)"
    by (cases "socket_read_fixed s1 (unpack_Q ld) []")
  obtain data where data: "r2 = Inr data"
  proof (cases r2)
    case (Inl e)
    with srf_cases[of "unpack_Q ld" s1 "[]"] r2 have "e = Exception ''eof''" by auto
    with r1 ld r2 Inl r show ?thesis by (simp add: receive_def)
  qed
  have "p_calls (snd (receive p)) = p_calls p @ [Decrypt data ?n]
        \<and> fst (receive p) = box_decrypt (p_box p) data ?n"
    using r1 ld r2 data pk by (simp add: receive_def Let_def split: sum.splits)
  then show "\<exists>data nonce. p_calls (snd (receive p)) = p_calls p @ [Decrypt data nonce]
         \<and> length nonce = 32 \<and> take 24 nonce = replicate 24 0
         \<and> int (nonce_counter nonce) = p_receive_nonce p
         \<and> fst (receive p) = box_decrypt (p_box p) data nonce"
    using r by (intro exI[of _ data] exI[of _ ?n])
      (simp add: nonce_of_length nonce_of_pad nonce_counter_int)
qed

theorem port_nonce_has_32_bytes_witness:
  "\<exists>nonce. p_calls (snd (send (Port idle_sock tag_box True) [1])) = [Encrypt [1] nonce]
      \<and> length nonce = 32 \<and> take 24 nonce = replicate 24 0 \<and> nonce_counter nonce = 0"
  using port_nonce_has_32_bytes[of "Port idle_sock tag_box True" "[1]"]
  by (simp add: Port_def) blast

text \<open>
  C8. With a box that checks the nonce as PyNaCl does, no message makes the round trip:
  every \<open>send\<close> raises before anything is written to the socket, and every \<open>receive\<close>
  raises, since the nonce the port builds has 32 bytes.
\<close>

theorem nacl_box_rejects_port_nonce:
  "p_box p = nacl_checked b \<longrightarrow>
     (\<exists>e. fst (send p msg) = Inl e) \<and> s_out (p_sock (snd (send p msg))) = s_out (p_sock p)
     \<and> (\<exists>e. fst (receive p) = Inl e)"
proof
  assume b: "p_box p = nacl_checked b"
  have s: "(\<exists>e. fst (send p msg) = Inl e) \<and> s_out (p_sock (snd (send p msg))) = s_out (p_sock p)"
  proof (cases "0 \<le> p_send_nonce p \<and> p_send_nonce p < 2 ^ 64")
    case True
    then have "pack_24xQ (p_send_nonce p) = Inr (nonce_of (nat (p_send_nonce p)))"
      by (simp add: pack_24xQ_Inr)
    then show ?thesis using b
      by (simp add: send_def Let_def nacl_checked_def nonce_of_length)
  next
    case False
    then have "pack_24xQ (p_send_nonce p) = Inl StructError" by (simp add: pack_24xQ_Inl)
    then show ?thesis by (simp add: send_def)
  qed
  have r: "\<exists>e. fst (receive p) = Inl e"
  proof (cases "0 \<le> p_receive_nonce p \<and> p_receive_nonce p < 2 ^ 64")
    case True
    then have "pack_24xQ (p_receive_nonce p) = Inr (nonce_of (nat (p_receive_nonce p)))"
      by (simp add: pack_24xQ_Inr)
    then show ?thesis using b
      by (simp add: receive_def Let_def nacl_checked_def nonce_of_length
            split: prod.splits sum.splits)
  next
    case False
    then have "pack_24xQ (p_receive_nonce p) = Inl StructError" by (simp add: pack_24xQ_Inl)
    then show ?thesis by (simp add: receive_def split: prod.splits sum.splits)
  qed
  from s r show "(\<exists>e. fst (send p msg) = Inl e)
     \<and> s_out (p_sock (snd (send p msg))) = s_out (p_sock p) \<and> (\<exists>e. fst (receive p) = Inl e)"
    by blast
qed

theorem nacl_box_rejects_port_nonce_witness:
  "fst (send (Port idle_sock (nacl_checked tag_box) True) [1])
     = Inl (ValueError ''The nonce must be exactly 24 bytes long'')
   \<and> s_out (p_sock (snd (send (Port idle_sock (nacl_checked tag_box) True) [1]))) = []"
proof -
  have "pack_24xQ 0 = Inr (nonce_of 0)" by (simp add: pack_24xQ_Inr)
  then have e: "fst (send (Port idle_sock (nacl_checked tag_box) True) [1])
     = Inl (ValueError ''The nonce must be exactly 24 bytes long'')"
    by (simp add: send_def Port_def Let_def nacl_checked_def nonce_of_length)
  from nacl_box_rejects_port_nonce[of "Port idle_sock (nacl_checked tag_box) True" tag_box "[1]"]
  have "s_out (p_sock (snd (send (Port idle_sock (nacl_checked tag_box) True) [1]))) = []"
    by (simp add: Port_def idle_sock_def)
  with e show ?thesis by simp
qed

section \<open>Invariants of the session\<close>

text \<open>
  Every step of a session extends the state in the sense of \<open>extends\<close>; a pass of the
  loop is blocked, raises, breaks or loops again, and what each case implies is
  \<open>loop_step_cases\<close>; the two facts about the whole loop follow by induction on its
  recursion.
\<close>

lemma extends_refl [simp]: "extends st st"
  unfolding extends_def by (auto intro: exI[of _ 0])

lemma extends_trans: "extends a b \<Longrightarrow> extends b c \<Longrightarrow> extends a c"
  unfolding extends_def
  apply (elim conjE exE)
  apply (intro conjI)
     apply fastforce
    apply blast
   apply blast
  apply (metis drop_drop)
  done

lemma extends_put: "\<not> is_Finished ev \<Longrightarrow> extends st (put c ev st)"
  unfolding extends_def put_def by (auto intro: exI[of _ 0])

lemma put_tasks [simp]: "st_tasks (put c ev st) = st_tasks st"
  by (simp add: put_def)

lemma send_calls: "set (p_calls p) \<subseteq> set (p_calls (snd (send p msg)))"
  using send_effect[of p msg] by auto

lemma receive_calls: "set (p_calls p) \<subseteq> set (p_calls (snd (receive p)))"
  using receive_effect[of p] by auto

lemma send_json_calls: "set (p_calls p) \<subseteq> set (p_calls (snd (send_json env p msg)))"
  by (simp add: send_json_def send_calls)

lemma receive_json_calls: "set (p_calls p) \<subseteq> set (p_calls (snd (receive_json env p)))"
  using receive_calls[of p]
  by (cases "receive p") (auto simp: receive_json_def and_then_def split: sum.splits)

lemma on_port_eq: "on_port f st = (r, st') \<Longrightarrow>
  st_feedback st' = st_feedback st \<and> st_tasks st' = st_tasks st
  \<and> st_shut_wr st' = st_shut_wr st \<and> f (st_port st) = (r, st_port st')"
  by (auto simp: on_port_def split: prod.splits)

lemma extends_on_port:
  assumes "on_port f st = (r, st')" "set (p_calls (st_port st)) \<subseteq> set (p_calls (snd (f (st_port st))))"
  shows "extends st st'"
  using on_port_eq[OF assms(1)] assms(2) unfolding extends_def
  by (auto intro: exI[of _ 0])

lemma extends_receive_json: "on_port (receive_json env) st = (r, st') \<Longrightarrow> extends st st'"
  by (erule extends_on_port) (rule receive_json_calls)

lemma extends_receive: "on_port receive st = (r, st') \<Longrightarrow> extends st st'"
  by (erule extends_on_port) (rule receive_calls)

lemma extends_send_json:
  "on_port (\<lambda>p. send_json env p msg) st = (r, st') \<Longrightarrow> extends st st'"
  by (erule extends_on_port) (rule send_json_calls)

lemma check_bases_extends: "check_bases env c i bases st = (r, st') \<Longrightarrow> extends st st'"
proof (induction bases arbitrary: i st)
  case Nil
  then show ?case by simp
next
  case (Cons base bases)
  have n: "extends st (put c (Message ''note: mismatching hash'') st)"
    by (rule extends_put) simp
  show ?case
    using Cons.prems Cons.IH[where i="Suc i" and st="put c (Message ''note: mismatching hash'') st"]
      Cons.IH[where i="Suc i" and st=st] n
    by (auto simp: and_then_def split: sum.splits if_splits intro: extends_trans)
qed

lemma negotiate_bases_extends: "negotiate_bases env c st = (r, st') \<Longrightarrow> extends st st'"
proof -
  assume a: "negotiate_bases env c st = (r, st')"
  obtain x st1 where r: "on_port (receive_json env) st = (x, st1)"
    by (cases "on_port (receive_json env) st")
  then have g1: "extends st st1" by (rule extends_receive_json)
  have cb: "\<And>bases y st2. check_bases env c 0 bases st1 = (y, st2) \<Longrightarrow> extends st st2"
    using g1 check_bases_extends by (blast intro: extends_trans)
  show ?thesis using a r g1
    by (cases x) (auto simp: negotiate_bases_def and_then_def split: sum.splits prod.splits if_splits dest: cb)
qed

lemma result_source_extends: "result_source env msg st = (r, st') \<Longrightarrow> extends st st'"
proof -
  assume a: "result_source env msg st = (r, st')"
  obtain x st1 where r: "on_port receive st = (x, st1)" by (cases "on_port receive st")
  then have "extends st st1" by (rule extends_receive)
  with a r show ?thesis
    by (cases x) (auto simp: result_source_def and_then_def split: if_splits sum.splits)
qed

lemma handle_result_extends: "handle_result env c msg st = (r, st') \<Longrightarrow> extends st st'"
proof -
  assume a: "handle_result env c msg st = (r, st')"
  obtain x st1 where r: "result_source env msg st = (x, st1)" by (cases "result_source env msg st")
  then have g: "extends st st1" by (rule result_source_extends)
  have p: "\<And>ev. \<not> is_Finished ev \<Longrightarrow> extends st (put c ev st1)"
    using g extends_put by (blast intro: extends_trans)
  from a r g show ?thesis
    by (cases x) (auto simp: handle_result_def and_then_def split: sum.splits intro: p)
qed

lemma sent_finish_extends: "sent_finish env st \<Longrightarrow> extends st st' \<Longrightarrow> sent_finish env st'"
  unfolding sent_finish_def extends_def by blast

lemma send_Inr_call:
  assumes "send p msg = (Inr u, p')"
  shows "\<exists>nonce. Encrypt msg nonce \<in> set (p_calls p')"
  using send_effect[of p msg] assms by auto

lemma extends_drop_task:
  assumes "st_tasks st = tk # rest" "extends (st\<lparr>st_tasks := rest\<rparr>) s1"
  shows "extends st s1"
proof -
  from assms(2) obtain k where k: "st_tasks s1 = drop k rest" unfolding extends_def by auto
  then have "st_tasks s1 = drop (Suc k) (st_tasks st)" using assms(1) by simp
  then have "\<exists>k. st_tasks s1 = drop k (st_tasks st)" by blast
  with assms(2) show ?thesis unfolding extends_def by simp
qed

lemma extends_tasks_eq:
  "extends st s1 \<Longrightarrow> st_tasks s1 = st_tasks st \<Longrightarrow> extends st (s1\<lparr>st_shut_wr := True\<rparr>)"
  unfolding extends_def by (auto intro: exI[of _ 0])

lemma pull_task_finished: "pull_task env st True = Some (Inr True, st)"
  by (simp add: pull_task_def)

lemma pull_task_empty: "st_tasks st = [] \<Longrightarrow> pull_task env st False = None"
  by (simp add: pull_task_def)

lemma pull_task_sentinel:
  assumes "st_tasks st = FinishedTask # rest"
  shows "\<exists>r s1. pull_task env st False = Some (r, s1) \<and> extends st s1 \<and> st_tasks s1 = rest
           \<and> (r = Inr True \<and> sent_finish env s1 \<or> (\<exists>e. r = Inl e))"
proof -
  let ?st0 = "st\<lparr>st_tasks := rest\<rparr>"
  obtain x s0 where s: "on_port (\<lambda>p. send_json env p finish_msg) ?st0 = (x, s0)"
    by (cases "on_port (\<lambda>p. send_json env p finish_msg) ?st0")
  from extends_send_json[OF s] have e0: "extends ?st0 s0" .
  from on_port_eq[OF s] have t0: "st_tasks s0 = rest"
    and sj: "send_json env (st_port st) finish_msg = (x, st_port s0)" by auto
  show ?thesis
  proof (cases x)
    case (Inl e)
    with assms s e0 t0 show ?thesis
      by (auto simp: pull_task_def finish_msg_def intro: extends_drop_task)
  next
    case (Inr u)
    from sj Inr have "\<exists>nonce. Encrypt (e_dumps env finish_msg) nonce \<in> set (p_calls (st_port s0))"
      by (auto simp: send_json_def dest: send_Inr_call)
    then have sf: "sent_finish env (s0\<lparr>st_shut_wr := True\<rparr>)" by (simp add: sent_finish_def)
    have "extends ?st0 (s0\<lparr>st_shut_wr := True\<rparr>)"
      using e0 t0 by (intro extends_tasks_eq) simp_all
    then have "extends st (s0\<lparr>st_shut_wr := True\<rparr>)" using assms by (rule extends_drop_task[rotated])
    with assms s Inr sf t0 show ?thesis
      by (auto simp: pull_task_def finish_msg_def)
  qed
qed

lemma pull_task_work:
  assumes "st_tasks st = WorkTask perm seed # rest"
  shows "\<exists>r s1. pull_task env st False = Some (r, s1) \<and> extends st s1 \<and> st_tasks s1 = rest
           \<and> (r = Inr False \<or> (\<exists>e. r = Inl e))"
proof -
  let ?st0 = "st\<lparr>st_tasks := rest\<rparr>"
  let ?m = "JDict [(''type'', JStr ''work''), (''permuter'', JInt perm), (''seed'', JInt seed)]"
  obtain x s0 where s: "on_port (\<lambda>p. send_json env p ?m) ?st0 = (x, s0)"
    by (cases "on_port (\<lambda>p. send_json env p ?m) ?st0")
  from extends_send_json[OF s] have e0: "extends ?st0 s0" .
  from on_port_eq[OF s] have t0: "st_tasks s0 = rest" by auto
  have "extends st s0" using assms e0 by (rule extends_drop_task)
  with assms s t0 show ?thesis
    by (cases x) (auto simp: pull_task_def)
qed

lemma loop_step_cases:
  assumes "loop_step env c st fin = r"
  shows "(r = Blocked \<and> \<not> fin \<and> st_tasks st = [])
    \<or> (\<exists>e st1. r = Raised e st1 \<and> extends st st1)
    \<or> (\<exists>f s1 msg st1. (r = Break f st1 \<or> r = Again f st1) \<and> extends st st1
          \<and> pull_task env st fin = Some (Inr f, s1) \<and> extends st s1
          \<and> (f \<longrightarrow> fin \<or> (FinishedTask \<in> set (st_tasks st) \<and> sent_finish env s1))
          \<and> (\<not> f \<longrightarrow> FinishedTask \<in> set (st_tasks st) \<longrightarrow> FinishedTask \<in> set (st_tasks st1))
          \<and> extends s1 st1
          \<and> (\<exists>s2. on_port (receive_json env) s1 = (Inr msg, s2)
                \<and> (r = Break f st1 \<longrightarrow> s2 = st1 \<and> json_get msg ''type'' = JStr ''finish'')))"
proof -
  have pt: "(\<not> fin \<and> st_tasks st = [] \<and> pull_task env st fin = None)
    \<or> (\<exists>x s1. pull_task env st fin = Some (x, s1) \<and> extends st s1
          \<and> ((\<exists>e. x = Inl e) \<or> (\<exists>f. x = Inr f
                \<and> (f \<longrightarrow> fin \<or> (FinishedTask \<in> set (st_tasks st) \<and> sent_finish env s1))
                \<and> (\<not> f \<longrightarrow> FinishedTask \<in> set (st_tasks st) \<longrightarrow> FinishedTask \<in> set (st_tasks s1)))))"
  proof (cases fin)
    case True
    then show ?thesis using pull_task_finished[of env st] by auto
  next
    case False
    show ?thesis
    proof (cases "st_tasks st")
      case Nil
      with False show ?thesis by (simp add: pull_task_empty)
    next
      case (Cons tk rest)
      show ?thesis
      proof (cases tk)
        case FinishedTask
        with Cons pull_task_sentinel[of st rest env] False show ?thesis by auto
      next
        case (WorkTask perm seed)
        with Cons pull_task_work[of st perm seed rest env] False show ?thesis by auto
      qed
    qed
  qed
  then show ?thesis
  proof (elim disjE exE conjE)
    assume "\<not> fin" "st_tasks st = []" "pull_task env st fin = None"
    with assms show ?thesis by (simp add: loop_step_def)
  next
    fix x s1 e
    assume "pull_task env st fin = Some (x, s1)" "extends st s1" "x = Inl e"
    with assms show ?thesis by (auto simp: loop_step_def)
  next
    fix x s1 f
    assume p: "pull_task env st fin = Some (x, s1)" and e1: "extends st s1" and x: "x = Inr f"
      and f1: "f \<longrightarrow> fin \<or> (FinishedTask \<in> set (st_tasks st) \<and> sent_finish env s1)"
      and f2: "\<not> f \<longrightarrow> FinishedTask \<in> set (st_tasks st) \<longrightarrow> FinishedTask \<in> set (st_tasks s1)"
    obtain y s2 where rj: "on_port (receive_json env) s1 = (y, s2)"
      by (cases "on_port (receive_json env) s1")
    from extends_receive_json[OF rj] have e2: "extends s1 s2" .
    from on_port_eq[OF rj] have t2: "st_tasks s2 = st_tasks s1" by simp
    show ?thesis
    proof (cases y)
      case (Inl e)
      with assms p x rj e1 e2 show ?thesis
        by (auto simp: loop_step_def intro: extends_trans)
    next
      case (Inr msg)
      show ?thesis
      proof (cases "json_prop msg ''type'' T_str")
        case (Inl e)
        with assms p x rj Inr e1 e2 show ?thesis
          by (auto simp: loop_step_def intro: extends_trans)
      next
        case mt: (Inr mt)
        then have mt_get: "json_get msg ''type'' = mt \<and> (\<exists>s. mt = JStr s)"
          by (cases msg; cases mt)
             (auto simp: json_prop_def json_get_def Let_def split: if_splits)
        consider (fin) "as_str mt = ''finish''" | (nw) "as_str mt = ''need_work''"
          | (res) "as_str mt = ''result''"
          | (other) "as_str mt \<noteq> ''finish''" "as_str mt \<noteq> ''need_work''" "as_str mt \<noteq> ''result''"
          by blast
        then show ?thesis
        proof cases
          case fin
          then have r: "r = Break f s2" using assms p x rj Inr mt by (simp add: loop_step_def)
          have "json_get msg ''type'' = JStr ''finish''" using mt_get fin by auto
          with r p x rj Inr e1 e2 f1 f2 t2 show ?thesis
            by (auto intro: extends_trans)
        next
          case nw
          then have r: "r = Again f (put c NeedMoreWork s2)"
            using assms p x rj Inr mt by (simp add: loop_step_def)
          have e3: "extends s2 (put c NeedMoreWork s2)" by (rule extends_put) simp
          from e2 e3 have e13: "extends s1 (put c NeedMoreWork s2)" by (rule extends_trans)
          from e1 e13 have e03: "extends st (put c NeedMoreWork s2)" by (rule extends_trans)
          from r p x rj Inr e1 e13 e03 f1 f2 t2 show ?thesis by auto
        next
          case res
          obtain z s3 where hr: "handle_result env c msg s2 = (z, s3)"
            by (cases "handle_result env c msg s2")
          from handle_result_extends[OF hr] have e3: "extends s2 s3" .
          have t3: "st_tasks s3 = st_tasks s2"
            using hr
            by (auto simp: handle_result_def result_source_def and_then_def on_port_def put_def
                split: sum.splits if_splits prod.splits)
          from e2 e3 have e13: "extends s1 s3" by (rule extends_trans)
          from e1 e13 have e03: "extends st s3" by (rule extends_trans)
          show ?thesis
          proof (cases z)
            case (Inl e)
            then have "r = Raised e s3" using assms p x rj Inr mt res hr by (simp add: loop_step_def)
            with e03 show ?thesis by auto
          next
            case (Inr u)
            then have "r = Again f s3" using assms p x rj \<open>y = Inr msg\<close> mt res hr
              by (simp add: loop_step_def)
            with p x rj \<open>y = Inr msg\<close> e1 e13 e03 f1 f2 t2 t3 show ?thesis by auto
          qed
        next
          case other
          then have "r = Raised (ValueError (''Invalid message type '' @ as_str mt)) s2"
            using assms p x rj Inr mt by (simp add: loop_step_def)
          with e1 e2 show ?thesis by (auto intro: extends_trans)
        qed
      qed
    qed
  qed
qed

lemma main_loop_props:
  "main_loop env c st fin = Some (r, st') \<Longrightarrow>
     extends st st'
     \<and> (\<forall>f. r = Inr f \<longrightarrow>
           (\<exists>s1 msg. on_port (receive_json env) s1 = (Inr msg, st')
                      \<and> json_get msg ''type'' = JStr ''finish'')
           \<and> (f \<longrightarrow> fin \<or> (FinishedTask \<in> set (st_tasks st) \<and> sent_finish env st')))"
proof (induction env c st fin arbitrary: r st' rule: main_loop.induct)
  case (1 env c st finished)
  note ml = "1.prems"
  from loop_step_cases[OF refl, of env c st finished]
  show ?case
  proof (elim disjE exE conjE)
    assume "loop_step env c st finished = Blocked"
    with ml show ?thesis by (simp add: main_loop.simps)
  next
    fix e st1 assume "loop_step env c st finished = Raised e st1" "extends st st1"
    with ml show ?thesis by (auto simp: main_loop.simps)
  next
    fix f s1 msg st1 s2
    assume b: "loop_step env c st finished = Break f st1"
      and e: "extends st st1" and e1: "extends st s1" and e2: "extends s1 st1"
      and f1: "f \<longrightarrow> finished \<or> (FinishedTask \<in> set (st_tasks st) \<and> sent_finish env s1)"
      and rj: "on_port (receive_json env) s1 = (Inr msg, s2)"
      and br: "loop_step env c st finished = Break f st1 \<longrightarrow>
                 s2 = st1 \<and> json_get msg ''type'' = JStr ''finish''"
    from b ml have r: "r = Inr f" "st' = st1" by (simp_all add: main_loop.simps)
    from f1 e2 have "f \<longrightarrow> finished \<or> (FinishedTask \<in> set (st_tasks st) \<and> sent_finish env st1)"
      by (auto intro: sent_finish_extends)
    with r e b br rj show ?thesis by auto
  next
    fix f s1 msg st1 s2
    assume a: "loop_step env c st finished = Again f st1"
      and e: "extends st st1" and e1: "extends st s1" and e2: "extends s1 st1"
      and f1: "f \<longrightarrow> finished \<or> (FinishedTask \<in> set (st_tasks st) \<and> sent_finish env s1)"
    from a ml have m: "main_loop env c st1 f = Some (r, st')" by (simp add: main_loop.simps)
    from "1.IH"[OF a m] have ih: "extends st1 st'"
      "\<forall>g. r = Inr g \<longrightarrow>
         (\<exists>s1 msg. on_port (receive_json env) s1 = (Inr msg, st')
                    \<and> json_get msg ''type'' = JStr ''finish'')
         \<and> (g \<longrightarrow> f \<or> (FinishedTask \<in> set (st_tasks st1) \<and> sent_finish env st'))"
      by auto
    have ex: "extends st st'" using e ih(1) by (rule extends_trans)
    have s1': "extends s1 st'" using e2 ih(1) by (rule extends_trans)
    have sub: "FinishedTask \<in> set (st_tasks st1) \<Longrightarrow> FinishedTask \<in> set (st_tasks st)"
    proof -
      assume h: "FinishedTask \<in> set (st_tasks st1)"
      from e obtain k where "st_tasks st1 = drop k (st_tasks st)" unfolding extends_def by auto
      with h show ?thesis by (auto dest: in_set_dropD)
    qed
    show ?thesis
    proof (intro conjI allI impI)
      show "extends st st'" by (rule ex)
    next
      fix g assume g: "r = Inr g"
      with ih(2) show "\<exists>s1 msg. on_port (receive_json env) s1 = (Inr msg, st')
                    \<and> json_get msg ''type'' = JStr ''finish''" by blast
    next
      fix g assume g: "r = Inr g" and gt: g
      with ih(2) have c: "f \<or> (FinishedTask \<in> set (st_tasks st1) \<and> sent_finish env st')" by blast
      show "finished \<or> (FinishedTask \<in> set (st_tasks st) \<and> sent_finish env st')"
        using c f1 s1' sub by (auto intro: sent_finish_extends)
    qed
  qed
qed

lemma main_loop_returns:
  "finished \<or> FinishedTask \<in> set (st_tasks st) \<Longrightarrow> main_loop env c st finished \<noteq> None"
proof (induction env c st finished rule: main_loop.induct)
  case (1 env c st finished)
  from loop_step_cases[OF refl, of env c st finished]
  show ?case
  proof (elim disjE exE conjE)
    assume "\<not> finished" "st_tasks st = []"
    with "1.prems" show ?thesis by simp
  next
    fix e st1 assume "loop_step env c st finished = Raised e st1"
    then show ?thesis by (simp add: main_loop.simps)
  next
    fix f st1
    assume "loop_step env c st finished = Break f st1"
    then show ?thesis by (simp add: main_loop.simps)
  next
    fix f s1 st1
    assume a: "loop_step env c st finished = Again f st1"
      and p: "pull_task env st finished = Some (Inr f, s1)"
      and f2: "\<not> f \<longrightarrow> FinishedTask \<in> set (st_tasks st) \<longrightarrow> FinishedTask \<in> set (st_tasks st1)"
    have "f \<or> FinishedTask \<in> set (st_tasks st1)"
    proof (cases finished)
      case True
      with p pull_task_finished[of env st] show ?thesis by simp
    next
      case False
      with "1.prems" f2 show ?thesis by blast
    qed
    from "1.IH"[OF a this] a show ?thesis by (simp add: main_loop.simps)
  qed
qed

lemma check_bases_tasks: "check_bases env c i bases st = (r, st') \<Longrightarrow> st_tasks st' = st_tasks st"
proof (induction bases arbitrary: i st)
  case Nil
  then show ?case by simp
next
  case (Cons base bases)
  show ?case
    using Cons.prems Cons.IH[where i="Suc i" and st="put c (Message ''note: mismatching hash'') st"]
      Cons.IH[where i="Suc i" and st=st]
    by (auto simp: and_then_def split: sum.splits if_splits)
qed

lemma negotiate_bases_tasks:
  "negotiate_bases env c st = (r, st') \<Longrightarrow> st_tasks st' = st_tasks st"
proof -
  assume a: "negotiate_bases env c st = (r, st')"
  obtain x st1 where r: "on_port (receive_json env) st = (x, st1)"
    by (cases "on_port (receive_json env) st")
  from on_port_eq[OF r] have g1: "st_tasks st1 = st_tasks st" by simp
  have cb: "\<And>bases y st2. check_bases env c 0 bases st1 = (y, st2) \<Longrightarrow> st_tasks st2 = st_tasks st"
    using g1 check_bases_tasks by metis
  show ?thesis using a r g1
    by (cases x) (auto simp: negotiate_bases_def and_then_def split: sum.splits prod.splits if_splits dest: cb)
qed

lemma Connection_stream_props:
  assumes "Connection_stream env c st = Some (r, st')"
  shows "extends st st' \<and> (r = Inr None \<longrightarrow> (\<exists>s0 f. main_loop env c s0 False = Some (Inr f, st')))"
proof -
  obtain x st1 where n: "negotiate_bases env c st = (x, st1)"
    by (cases "negotiate_bases env c st")
  from negotiate_bases_extends[OF n] have e1: "extends st st1" .
  show ?thesis
  proof (cases x)
    case (Inl e)
    with assms n e1 show ?thesis by (auto simp: Connection_stream_def)
  next
    case (Inr reason)
    show ?thesis
    proof (cases reason)
      case (Some why)
      with assms n Inr e1 show ?thesis by (auto simp: Connection_stream_def)
    next
      case None
      let ?s0 = "put c NeedMoreWork st1"
      have e2: "extends st1 ?s0" by (rule extends_put) simp
      from assms n Inr None obtain y where
        m: "main_loop env c ?s0 False = Some (y, st')"
        and y: "(\<exists>e. y = Inl e \<and> r = Inl e) \<or> (\<exists>f. y = Inr f \<and> r = Inr None)"
        by (auto simp: Connection_stream_def split: option.splits sum.splits)
      from main_loop_props[OF m] have e3: "extends ?s0 st'" by simp
      have "extends st st'" using e1 e2 e3 by (blast intro: extends_trans)
      moreover have "r = Inr None \<longrightarrow> (\<exists>s0 f. main_loop env c s0 False = Some (Inr f, st'))"
        using m y by auto
      ultimately show ?thesis by simp
    qed
  qed
qed

lemma Connection_stream_returns:
  assumes "FinishedTask \<in> set (st_tasks st)"
  shows "Connection_stream env c st \<noteq> None"
proof -
  obtain x st1 where n: "negotiate_bases env c st = (x, st1)"
    by (cases "negotiate_bases env c st")
  from negotiate_bases_tasks[OF n] assms
  have "FinishedTask \<in> set (st_tasks (put c NeedMoreWork st1))" by simp
  then have "main_loop env c (put c NeedMoreWork st1) False \<noteq> None"
    by (intro main_loop_returns) simp
  with n show ?thesis
    by (auto simp: Connection_stream_def split: sum.splits option.splits)
qed

lemma init_calls: "set (p_calls p) \<subseteq> set (p_calls (snd (Connection_init env c p)))"
proof -
  obtain x p1 where s: "send p (c_grant c) = (x, p1)" by (cases "send p (c_grant c)")
  have a: "set (p_calls p) \<subseteq> set (p_calls p1)" using send_calls[of p "c_grant c"] s by simp
  obtain y p2 where r: "receive p1 = (y, p2)" by (cases "receive p1")
  have b: "set (p_calls p1) \<subseteq> set (p_calls p2)" using receive_calls[of p1] r by simp
  from a b s r show ?thesis
    by (cases x; cases y) (auto simp: Connection_init_def and_then_def split: sum.splits)
qed

lemma send_blobs_calls: "set (p_calls p) \<subseteq> set (p_calls (snd (send_blobs pms p)))"
proof (induction pms arbitrary: p)
  case Nil
  then show ?case by simp
next
  case (Cons pm pms)
  obtain x p1 where s1: "send p (compressed_source pm) = (x, p1)"
    by (cases "send p (compressed_source pm)")
  have a: "set (p_calls p) \<subseteq> set (p_calls p1)"
    using send_calls[of p "compressed_source pm"] s1 by simp
  obtain y p2 where s2: "send p1 (target_o_bin pm) = (y, p2)"
    by (cases "send p1 (target_o_bin pm)")
  have b: "set (p_calls p1) \<subseteq> set (p_calls p2)"
    using send_calls[of p1 "target_o_bin pm"] s2 by simp
  from a b s1 s2 Cons[of p2] show ?case
    by (cases x; cases y) (auto simp: and_then_def)
qed

lemma send_permuters_calls:
  "set (p_calls p) \<subseteq> set (p_calls (snd (Connection_send_permuters env c p)))"
proof -
  obtain x p1 where s: "send_json env p (init_obj c) = (x, p1)"
    by (cases "send_json env p (init_obj c)")
  have a: "set (p_calls p) \<subseteq> set (p_calls p1)"
    using send_json_calls[of p env "init_obj c"] s by simp
  from a s send_blobs_calls[of p1 "c_permuters c"] show ?thesis
    by (cases x) (auto simp: Connection_send_permuters_def and_then_def)
qed

lemma Connection_session_props:
  assumes "Connection_session env c st = Some (r, st')"
  shows "extends st st' \<and> (r = Inr None \<longrightarrow> (\<exists>s0 f. main_loop env c s0 False = Some (Inr f, st')))"
proof -
  obtain x st1 where i: "on_port (Connection_init env c) st = (x, st1)"
    by (cases "on_port (Connection_init env c) st")
  have e1: "extends st st1" using i by (rule extends_on_port) (rule init_calls)
  show ?thesis
  proof (cases x)
    case (Inl e)
    with assms i e1 show ?thesis by (auto simp: Connection_session_def)
  next
    case (Inr props)
    show ?thesis
    proof (cases "float_lt (c_priority c) (min_priority props)")
      case True
      with assms i Inr e1 show ?thesis by (auto simp: Connection_session_def)
    next
      case False
      obtain y st2 where sp: "on_port (Connection_send_permuters env c) st1 = (y, st2)"
        by (cases "on_port (Connection_send_permuters env c) st1")
      have e2: "extends st1 st2" using sp by (rule extends_on_port) (rule send_permuters_calls)
      from e1 e2 have e12: "extends st st2" by (rule extends_trans)
      show ?thesis
      proof (cases y)
        case (Inl e)
        with assms i Inr False sp e12 show ?thesis
          by (auto simp: Connection_session_def)
      next
        case u: (Inr u)
        with assms i Inr False sp have "Connection_stream env c st2 = Some (r, st')"
          by (simp add: Connection_session_def)
        from Connection_stream_props[OF this] e12 show ?thesis
          by (blast intro: extends_trans)
      qed
    qed
  qed
qed

lemma Connection_session_returns:
  assumes "FinishedTask \<in> set (st_tasks st)"
  shows "Connection_session env c st \<noteq> None"
proof -
  obtain x st1 where i: "on_port (Connection_init env c) st = (x, st1)"
    by (cases "on_port (Connection_init env c) st")
  obtain y st2 where sp: "on_port (Connection_send_permuters env c) st1 = (y, st2)"
    by (cases "on_port (Connection_send_permuters env c) st1")
  from on_port_eq[OF i] on_port_eq[OF sp] assms
  have "FinishedTask \<in> set (st_tasks st2)" by simp
  then have "Connection_stream env c st2 \<noteq> None" by (rule Connection_stream_returns)
  with i sp show ?thesis
    by (auto simp: Connection_session_def split: sum.splits)
qed

section \<open>The claims about \<open>Connection.run\<close>\<close>

lemma run_try_props:
  assumes "run_try env c tasks = Some (r, evs, so, rest)"
  shows "(\<forall>x \<in> set evs. \<not> is_Finished (fst x))
       \<and> (r = Inr None \<longrightarrow> (\<exists>s0 f st'. main_loop env c s0 False = Some (Inr f, st')))"
proof (cases "Connection_setup env")
  case (Pair x so')
  show ?thesis
  proof (cases x)
    case (Inl e)
    with assms Pair show ?thesis by (auto simp: run_try_def)
  next
    case (Inr p)
    let ?st = "\<lparr>st_port = p, st_tasks = tasks, st_feedback = [], st_shut_wr = False\<rparr>"
    from assms Pair Inr obtain st' where
      s: "Connection_session env c ?st = Some (r, st')" and ev: "evs = st_feedback st'"
      by (auto simp: run_try_def split: option.splits)
    from Connection_session_props[OF s] ev show ?thesis
      by (auto simp: extends_def)
  qed
qed

lemma run_try_returns: "FinishedTask \<in> set tasks \<Longrightarrow> run_try env c tasks \<noteq> None"
proof -
  assume a: "FinishedTask \<in> set tasks"
  obtain x so where s: "Connection_setup env = (x, so)" by (cases "Connection_setup env")
  show ?thesis
  proof (cases x)
    case (Inl e)
    with s show ?thesis by (simp add: run_try_def)
  next
    case (Inr p)
    have "Connection_session env c
          \<lparr>st_port = p, st_tasks = tasks, st_feedback = [], st_shut_wr = False\<rparr> \<noteq> None"
      using a by (intro Connection_session_returns) simp
    with s Inr show ?thesis by (auto simp: run_try_def)
  qed
qed

text \<open>
  C7. The \<open>finally\<close> clause of \<open>run\<close> is where the one terminal \<open>Finished\<close> event is put,
  after everything the \<open>try\<close> block has put, and it tags the event with
  \<open>self._server.nickname\<close>. \<open>RemoteServer\<close> as common.py declares it has no such
  attribute: however the \<open>try\<close> block ended, the clause raises \<open>AttributeError\<close> while it
  builds the pair for \<open>put\<close>. So no \<open>Finished\<close> event is put (the \<open>try\<close> block puts none
  either), the exception leaves \<open>run\<close>, and the socket is not closed.
\<close>

theorem finally_raises_without_nickname:
  "o_raised (run_finally (nickname_of server) r fb so rest) = Some (AttributeError ''nickname'')
   \<and> o_feedback (run_finally (nickname_of server) r fb so rest) = fb
   \<and> \<not> o_closed (run_finally (nickname_of server) r fb so rest)
   \<and> (run_try env c tasks = Some (r0, fb, so, rest) \<longrightarrow>
        (\<forall>x \<in> set (o_feedback (run_finally (nickname_of server) (run_except env r0) fb so rest)).
            \<not> is_Finished (fst x)))"
  using run_try_props[of env c tasks r0 fb so rest]
  by (simp add: run_finally_def nickname_of_def)

text \<open>
  A run that the server declines at the priority gate: the \<open>try\<close> block returns with
  its reason before any event is put.
\<close>

lemma demo_decline_try:
  "map_option (\<lambda>(r, fb, so, rest). (r, fb, so \<noteq> None, rest))
     (run_try (demo_env decline_stream) (demo_conn (Finite 3)) [FinishedTask])
   = Some (Inr (Some ''skipping due to priority requirement 5.0''), [], True, [FinishedTask])"
  by code_simp

theorem finally_raises_without_nickname_witness:
  "\<exists>r0 so. run_try (demo_env decline_stream) (demo_conn (Finite 3)) [FinishedTask]
         = Some (r0, [], so, [FinishedTask])
     \<and> r0 = Inr (Some ''skipping due to priority requirement 5.0'')
     \<and> so \<noteq> None
     \<and> o_raised (run_finally (nickname_of declared_server)
           (run_except (demo_env decline_stream) r0) [] so [FinishedTask])
         = Some (AttributeError ''nickname'')
     \<and> o_feedback (run_finally (nickname_of declared_server)
           (run_except (demo_env decline_stream) r0) [] so [FinishedTask]) = []
     \<and> \<not> o_closed (run_finally (nickname_of declared_server)
           (run_except (demo_env decline_stream) r0) [] so [FinishedTask])"
proof -
  let ?E = "demo_env decline_stream"
  obtain r0 fb so rest where
    t: "run_try ?E (demo_conn (Finite 3)) [FinishedTask] = Some (r0, fb, so, rest)"
    using demo_decline_try by (cases "run_try ?E (demo_conn (Finite 3)) [FinishedTask]") auto
  with demo_decline_try have v: "r0 = Inr (Some ''skipping due to priority requirement 5.0'')"
    "fb = []" "so \<noteq> None" "rest = [FinishedTask]"
    by simp_all
  from finally_raises_without_nickname[of declared_server "run_except ?E r0" fb so rest
       ?E "demo_conn (Finite 3)" "[FinishedTask]" r0] t v
  show ?thesis by blast
qed

text \<open>
  C3. A short read raises \<open>Exception("eof")\<close>, which is not an \<open>EOFError\<close>: the clause of
  \<open>run\<close> that sets the reason "disconnected" does not catch it, and the terminal event
  carries "error: " followed by the exception's text. So it is for a stream that ends
  inside the server's handshake message, which \<open>_setup\<close> reads with \<open>socket_read_fixed\<close>.
\<close>

theorem short_read_reported_as_error:
  "(inlen p < 8 \<longrightarrow> fst (receive p) = Inl (Exception ''eof''))
   \<and> run_except env (Inl (Exception ''eof''))
       = Inr (Some (''error: '' @ e_exception_to_string env (Exception ''eof'')))
   \<and> run_except env (Inl (Exception ''eof'')) \<noteq> Inr (Some ''disconnected'')
   \<and> (e_connect env = Inr sk \<and> length (s_in sk) < 103 \<longrightarrow>
        (\<exists>out. Connection_run env c tasks = Some out
           \<and> o_feedback out =
               [(Finished (Some (''error: '' @ e_exception_to_string env (Exception ''eof''))),
                 c_nickname c)]))"
proof (intro conjI impI)
  assume "inlen p < 8"
  then have "fst (socket_read_fixed (p_sock p) 8 []) = Inl (Exception ''eof'')"
    by (intro srf_eof) (simp add: inlen_def)
  then show "fst (receive p) = Inl (Exception ''eof'')"
    by (cases "socket_read_fixed (p_sock p) 8 []") (simp add: receive_def)
next
  show "run_except env (Inl (Exception ''eof''))
       = Inr (Some (''error: '' @ e_exception_to_string env (Exception ''eof'')))"
    by (simp add: run_except_def)
next
  show "run_except env (Inl (Exception ''eof'')) \<noteq> Inr (Some ''disconnected'')"
    by (simp add: run_except_def)
next
  assume a: "e_connect env = Inr sk \<and> length (s_in sk) < 103"
  let ?sk = "sendall sk (e_hello env)"
  obtain x sk1 where r: "socket_read_fixed ?sk (7 + 32 + 64) [] = (x, sk1)"
    by (cases "socket_read_fixed ?sk (7 + 32 + 64) []")
  have "length (s_in ?sk) < 7 + 32 + 64" using a by (simp add: sendall_def)
  from srf_eof[OF this, of "[]"] r have x: "x = Inl (Exception ''eof'')" by simp
  have "Connection_setup env = (Inl (Exception ''eof''), Some sk1)"
    using a r x by (simp add: Connection_setup_def)
  then show "\<exists>out. Connection_run env c tasks = Some out
           \<and> o_feedback out =
               [(Finished (Some (''error: '' @ e_exception_to_string env (Exception ''eof''))),
                 c_nickname c)]"
    by (simp add: Connection_run_def run_try_def run_except_def run_finally_def)
qed

theorem short_read_reported_as_error_witness:
  "\<exists>out. Connection_run (demo_env (replicate 50 0)) (demo_conn (Finite 6)) [FinishedTask] = Some out
     \<and> o_feedback out = [(Finished (Some ''error: eof''), ''srv'')]"
  using short_read_reported_as_error[of _ "demo_env (replicate 50 0)"
          "\<lparr>s_in = replicate 50 0, s_chunks = [], s_out = []\<rparr>" "demo_conn (Finite 6)" "[FinishedTask]"]
  by (simp add: demo_env_def demo_conn_def)










lemma init_Inr:
  assumes "Connection_init env c p = (Inr props, p')"
  shows "\<exists>p1 data obj. send p (c_grant c) = (Inr (), p1) \<and> receive p1 = (Inr data, p')
           \<and> e_loads env data = Inr obj
           \<and> json_prop obj ''min_priority'' T_float = Inr (JFloat (min_priority props))
           \<and> json_prop obj ''num_cpus'' T_float = Inr (JFloat (num_cpus props))"
proof -
  have fl: "\<And>obj k v. json_prop obj k T_float = Inr v \<Longrightarrow> v = JFloat (as_float v)"
  proof -
    fix obj k v assume "json_prop obj k T_float = Inr v"
    then have "isinstance v T_float"
      by (cases obj) (auto simp: json_prop_def Let_def split: if_splits)
    then show "v = JFloat (as_float v)" by (cases v) auto
  qed
  from assms show ?thesis
    by (auto simp: Connection_init_def and_then_eq_Inr dest: fl)
qed




text \<open>
  C9. \<open>_init\<close> returns properties only when the decoded capabilities hold a float under
  \<open>min_priority\<close> and a float under \<open>num_cpus\<close>, and these are the properties returned.
  When the capabilities are a dictionary in which one of the two is not a float, be it
  an integer, missing (\<open>None\<close>) or of another type, \<open>_init\<close> raises the \<open>ValueError\<close> of
  \<open>json_prop\<close> and the session ends with it. No integer is a float for \<open>isinstance\<close>.
\<close>

theorem init_requires_float_capabilities:
  "(Connection_init env c p = (Inr props, p') \<longrightarrow>
      (\<exists>p1 data obj. send p (c_grant c) = (Inr (), p1) \<and> receive p1 = (Inr data, p')
          \<and> e_loads env data = Inr obj
          \<and> json_get obj ''min_priority'' = JFloat (min_priority props)
          \<and> json_get obj ''num_cpus'' = JFloat (num_cpus props)))
   \<and> (fst (send p (c_grant c)) = Inr ()
       \<and> fst (receive (snd (send p (c_grant c)))) = Inr data
       \<and> e_loads env data = Inr (JDict d)
       \<and> \<not> (isinstance (dict_get d ''min_priority'') T_float
            \<and> isinstance (dict_get d ''num_cpus'') T_float) \<longrightarrow>
      (\<exists>msg. fst (Connection_init env c p) = Inl (ValueError msg))
      \<and> (\<forall>st. st_port st = p \<longrightarrow>
            (\<exists>msg st'. Connection_session env c st = Some (Inl (ValueError msg), st'))))
   \<and> \<not> isinstance (JInt i) T_float \<and> \<not> isinstance (JBool b) T_float
   \<and> \<not> isinstance (JStr s) T_float \<and> \<not> isinstance JNull T_float
   \<and> \<not> isinstance (JList l) T_float \<and> \<not> isinstance (JDict kv) T_float"
proof (intro conjI impI)
  assume a: "Connection_init env c p = (Inr props, p')"
  from init_Inr[OF a] obtain p1 data obj where
    h: "send p (c_grant c) = (Inr (), p1)" "receive p1 = (Inr data, p')"
       "e_loads env data = Inr obj"
       "json_prop obj ''min_priority'' T_float = Inr (JFloat (min_priority props))"
       "json_prop obj ''num_cpus'' T_float = Inr (JFloat (num_cpus props))"
    by blast
  have g: "\<And>k v. json_prop obj k T_float = Inr v \<Longrightarrow> json_get obj k = v"
    by (cases obj) (auto simp: json_prop_def json_get_def Let_def split: if_splits)
  from h g show "\<exists>p1 data obj. send p (c_grant c) = (Inr (), p1) \<and> receive p1 = (Inr data, p')
          \<and> e_loads env data = Inr obj
          \<and> json_get obj ''min_priority'' = JFloat (min_priority props)
          \<and> json_get obj ''num_cpus'' = JFloat (num_cpus props)"
    by blast
next
  assume a: "fst (send p (c_grant c)) = Inr ()
       \<and> fst (receive (snd (send p (c_grant c)))) = Inr data
       \<and> e_loads env data = Inr (JDict d)
       \<and> \<not> (isinstance (dict_get d ''min_priority'') T_float
            \<and> isinstance (dict_get d ''num_cpus'') T_float)"
  obtain p1 where s: "send p (c_grant c) = (Inr (), p1)"
    using a by (cases "send p (c_grant c)") auto
  obtain p2 where r: "receive p1 = (Inr data, p2)"
    using a s by (cases "receive p1") auto
  have "\<exists>msg. Connection_init env c p = (Inl (ValueError msg), p2)"
    using a s r by (auto simp: Connection_init_def json_prop_def Let_def)
  then obtain msg where ci: "Connection_init env c p = (Inl (ValueError msg), p2)" by blast
  then show "\<exists>msg. fst (Connection_init env c p) = Inl (ValueError msg)" by simp
  show "\<forall>st. st_port st = p \<longrightarrow>
            (\<exists>msg st'. Connection_session env c st = Some (Inl (ValueError msg), st'))"
    using ci by (auto simp: Connection_session_def on_port_def)
qed simp_all

lemma demo_int_capabilities:
  "fst (send (Port \<lparr>s_in = demo_frame 1 [9], s_chunks = [], s_out = []\<rparr> tag_box True) []) = Inr ()
   \<and> fst (receive (snd (send (Port \<lparr>s_in = demo_frame 1 [9], s_chunks = [], s_out = []\<rparr>
                                 tag_box True) []))) = Inr [9]
   \<and> fst (Connection_init (demo_env []) (demo_conn (Finite 6))
            (Port \<lparr>s_in = demo_frame 1 [9], s_chunks = [], s_out = []\<rparr> tag_box True))
       = Inl (ValueError ''Member min_priority must have type float; got int'')"
  by code_simp

theorem init_requires_float_capabilities_witness:
  "(\<exists>msg. fst (Connection_init (demo_env []) (demo_conn (Finite 6))
            (Port \<lparr>s_in = demo_frame 1 [9], s_chunks = [], s_out = []\<rparr> tag_box True))
       = Inl (ValueError msg))
   \<and> (\<exists>msg st'. Connection_session (demo_env []) (demo_conn (Finite 6))
                   (loop_entry (demo_frame 1 [9]) []) = Some (Inl (ValueError msg), st'))"
proof -
  let ?p = "Port \<lparr>s_in = demo_frame 1 [9], s_chunks = [], s_out = []\<rparr> tag_box True"
  have l: "e_loads (demo_env []) [9] = Inr (JDict [(''min_priority'', JInt 5), (''num_cpus'', JInt 4)])"
    by (simp add: demo_env_def demo_loads_def)
  have g: "c_grant (demo_conn (Finite 6)) = []" by (simp add: demo_conn_def)
  have n: "\<not> (isinstance (dict_get [(''min_priority'', JInt 5), (''num_cpus'', JInt 4)] ''min_priority'') T_float
            \<and> isinstance (dict_get [(''min_priority'', JInt 5), (''num_cpus'', JInt 4)] ''num_cpus'') T_float)"
    by (simp add: dict_get_def)
  have sp: "st_port (loop_entry (demo_frame 1 [9]) []) = ?p" by (simp add: loop_entry_def)
  from init_requires_float_capabilities[of "demo_env []" "demo_conn (Finite 6)" ?p _ _ "[9]"
         "[(''min_priority'', JInt 5), (''num_cpus'', JInt 4)]"]
       demo_int_capabilities l g n sp
  show ?thesis by simp
qed

lemma with_notes_0 [simp]: "with_notes c 0 st = st"
  by (simp add: with_notes_def)








lemma result_from_json_candidate:
  assumes "\<not> has_key msg ''error''"
    and "json_prop msg ''profiler'' T_dict = Inr pj"
    and "profiler_from_json env pj = Inr prof"
    and "json_prop msg ''score'' T_int = Inr score"
    and "json_prop msg ''hash'' T_str = Inr hsh"
  shows "result_from_json env msg source
           = Inr (CandidateResult (as_int score) (as_str hsh) source prof)"
  using assms by (simp add: result_from_json_def)

lemma handle_result_with_source:
  assumes "py_eq_True (json_get msg ''has_source'')"
    and "receive (st_port st) = (Inr compressed, p')"
    and "e_decompress env compressed = Inr raw"
    and "e_decode env raw = Inr src"
    and "json_prop msg ''permuter'' T_int = Inr idx"
    and "result_from_json env msg (Some src) = Inr res"
  shows "handle_result env c msg st
           = (Inr (), put c (WorkDone (as_int idx) res) (st\<lparr>st_port := p'\<rparr>))"
  using assms by (simp add: handle_result_def result_source_def on_port_def)

lemma handle_result_without_source:
  assumes "\<not> py_eq_True (json_get msg ''has_source'')"
    and "json_prop msg ''permuter'' T_int = Inr idx"
    and "result_from_json env msg None = Inr res"
  shows "handle_result env c msg st = (Inr (), put c (WorkDone (as_int idx) res) st)"
  using assms by (simp add: handle_result_def result_source_def)

text \<open>
  C10. In the \<open>"result"\<close> branch of the loop, the source is fetched by exactly one
  \<open>receive\<close> when \<open>msg.get("has_source") == True\<close>, and what was received is decompressed
  and decoded into the source; otherwise the port is left as it was and the source is
  \<open>None\<close>. The outcome is built from that source: for a message without \<open>"error"\<close>
  whose profiler, score and hash have their types, \<open>_result_from_json\<close> returns the
  \<open>CandidateResult\<close> of that score, hash and profiler with the source it was given, and
  the branch puts it on the feedback queue in a \<open>WorkDone\<close> for the message's permuter,
  with the received source or with \<open>None\<close>; a message with an \<open>"error"\<close> string gives an
  \<open>EvalError\<close>, which carries no source. The branch is what a pass of the loop does
  with a message of type \<open>result\<close>.
\<close>

theorem source_received_iff_has_source:
  "(\<not> py_eq_True (json_get msg ''has_source'') \<longrightarrow>
      result_source env msg st = (Inr None, st))
   \<and> (py_eq_True (json_get msg ''has_source'') \<longrightarrow>
        st_port (snd (result_source env msg st)) = snd (receive (st_port st))
        \<and> fst (result_source env msg st)
            = (case fst (receive (st_port st)) of
                 Inl e \<Rightarrow> Inl e
               | Inr compressed \<Rightarrow>
                   (case e_decompress env compressed of
                      Inl e \<Rightarrow> Inl e
                    | Inr raw \<Rightarrow>
                        (case e_decode env raw of
                           Inl e \<Rightarrow> Inl e
                         | Inr src \<Rightarrow> Inr (Some src)))))
   \<and> (json_prop msg ''permuter'' T_int = Inr idx \<longrightarrow>
        handle_result env c msg st
          = (case result_source env msg st of
               (Inl e, st1) \<Rightarrow> (Inl e, st1)
             | (Inr source, st1) \<Rightarrow>
                 (case result_from_json env msg source of
                    Inl e \<Rightarrow> (Inl e, st1)
                  | Inr res \<Rightarrow> (Inr (), put c (WorkDone (as_int idx) res) st1))))
   \<and> (result_from_json env msg source = Inr (CandidateResult sc h s pr) \<longrightarrow> s = source)
   \<and> (on_port (receive_json env) st1 = (Inr msg, st)
       \<and> json_prop msg ''type'' T_str = Inr (JStr ''result'')
       \<and> pull_task env st0 fin = Some (Inr fin1, st1) \<longrightarrow>
        loop_step env c st0 fin
          = (case handle_result env c msg st of
               (Inl e, st3) \<Rightarrow> Raised e st3
             | (Inr u, st3) \<Rightarrow> Again fin1 st3))
   \<and> (\<not> has_key msg ''error''
       \<and> json_prop msg ''profiler'' T_dict = Inr pj
       \<and> profiler_from_json env pj = Inr prof
       \<and> json_prop msg ''score'' T_int = Inr score
       \<and> json_prop msg ''hash'' T_str = Inr hsh \<longrightarrow>
        result_from_json env msg source
          = Inr (CandidateResult (as_int score) (as_str hsh) source prof)
        \<and> (json_prop msg ''permuter'' T_int = Inr idx
            \<and> py_eq_True (json_get msg ''has_source'')
            \<and> receive (st_port st) = (Inr compressed, p')
            \<and> e_decompress env compressed = Inr raw
            \<and> e_decode env raw = Inr src \<longrightarrow>
             handle_result env c msg st
               = (Inr (), put c (WorkDone (as_int idx)
                             (CandidateResult (as_int score) (as_str hsh) (Some src) prof))
                           (st\<lparr>st_port := p'\<rparr>)))
        \<and> (json_prop msg ''permuter'' T_int = Inr idx
            \<and> \<not> py_eq_True (json_get msg ''has_source'') \<longrightarrow>
             handle_result env c msg st
               = (Inr (), put c (WorkDone (as_int idx)
                             (CandidateResult (as_int score) (as_str hsh) None prof)) st)))
   \<and> (has_key msg ''error'' \<and> json_prop msg ''error'' T_str = Inr err \<longrightarrow>
        result_from_json env msg source = Inr (EvalError (as_str err)))"
proof -
  have c1: "\<not> py_eq_True (json_get msg ''has_source'') \<longrightarrow>
      result_source env msg st = (Inr None, st)"
    by (simp add: result_source_def)
  obtain x p where r: "receive (st_port st) = (x, p)" by (cases "receive (st_port st)")
  have c2: "py_eq_True (json_get msg ''has_source'') \<longrightarrow>
        st_port (snd (result_source env msg st)) = snd (receive (st_port st))
        \<and> fst (result_source env msg st)
            = (case fst (receive (st_port st)) of
                 Inl e \<Rightarrow> Inl e
               | Inr compressed \<Rightarrow>
                   (case e_decompress env compressed of
                      Inl e \<Rightarrow> Inl e
                    | Inr raw \<Rightarrow>
                        (case e_decode env raw of
                           Inl e \<Rightarrow> Inl e
                         | Inr src \<Rightarrow> Inr (Some src))))"
    using r by (cases x) (auto simp: result_source_def on_port_def and_then_def split: sum.splits)
  have c3: "json_prop msg ''permuter'' T_int = Inr idx \<longrightarrow>
        handle_result env c msg st
          = (case result_source env msg st of
               (Inl e, st1) \<Rightarrow> (Inl e, st1)
             | (Inr source, st1) \<Rightarrow>
                 (case result_from_json env msg source of
                    Inl e \<Rightarrow> (Inl e, st1)
                  | Inr res \<Rightarrow> (Inr (), put c (WorkDone (as_int idx) res) st1)))"
    by (simp add: handle_result_def and_then_def split: prod.splits sum.splits)
  have c4: "result_from_json env msg source = Inr (CandidateResult sc h s pr) \<longrightarrow> s = source"
    by (auto simp: result_from_json_def split: if_splits sum.splits)
  have c5: "on_port (receive_json env) st1 = (Inr msg, st)
       \<and> json_prop msg ''type'' T_str = Inr (JStr ''result'')
       \<and> pull_task env st0 fin = Some (Inr fin1, st1) \<longrightarrow>
        loop_step env c st0 fin
          = (case handle_result env c msg st of
               (Inl e, st3) \<Rightarrow> Raised e st3
             | (Inr u, st3) \<Rightarrow> Again fin1 st3)"
    by (simp add: loop_step_def)
  have c6: "\<not> has_key msg ''error''
       \<and> json_prop msg ''profiler'' T_dict = Inr pj
       \<and> profiler_from_json env pj = Inr prof
       \<and> json_prop msg ''score'' T_int = Inr score
       \<and> json_prop msg ''hash'' T_str = Inr hsh \<longrightarrow>
        result_from_json env msg source
          = Inr (CandidateResult (as_int score) (as_str hsh) source prof)
        \<and> (json_prop msg ''permuter'' T_int = Inr idx
            \<and> py_eq_True (json_get msg ''has_source'')
            \<and> receive (st_port st) = (Inr compressed, p')
            \<and> e_decompress env compressed = Inr raw
            \<and> e_decode env raw = Inr src \<longrightarrow>
             handle_result env c msg st
               = (Inr (), put c (WorkDone (as_int idx)
                             (CandidateResult (as_int score) (as_str hsh) (Some src) prof))
                           (st\<lparr>st_port := p'\<rparr>)))
        \<and> (json_prop msg ''permuter'' T_int = Inr idx
            \<and> \<not> py_eq_True (json_get msg ''has_source'') \<longrightarrow>
             handle_result env c msg st
               = (Inr (), put c (WorkDone (as_int idx)
                             (CandidateResult (as_int score) (as_str hsh) None prof)) st))"
    using result_from_json_candidate[of msg pj env prof score hsh]
      handle_result_with_source[of msg st compressed p' env raw src idx _ c]
      handle_result_without_source[of msg idx env _ c st]
    by (intro impI conjI) (elim conjE, simp)+
  have c7: "has_key msg ''error'' \<and> json_prop msg ''error'' T_str = Inr err \<longrightarrow>
        result_from_json env msg source = Inr (EvalError (as_str err))"
    by (simp add: result_from_json_def)
  from c1 c2 c3 c4 c5 c6 c7 show ?thesis by blast
qed

lemma demo_source_frame:
  "fst (receive (st_port (loop_entry (demo_frame 1 [7]) []))) = Inr [7]
   \<and> p_receive_nonce (snd (receive (st_port (loop_entry (demo_frame 1 [7]) [])))) = 3
   \<and> inlen (snd (receive (st_port (loop_entry (demo_frame 1 [7]) [])))) = 0"
  by code_simp

theorem source_received_iff_has_source_witness:
  "fst (result_source (demo_env []) result_with_source (loop_entry (demo_frame 1 [7]) []))
     = Inr (Some ''src'')
   \<and> p_receive_nonce (st_port (snd (result_source (demo_env []) result_with_source
         (loop_entry (demo_frame 1 [7]) [])))) = 3
   \<and> inlen (st_port (snd (result_source (demo_env []) result_with_source
         (loop_entry (demo_frame 1 [7]) [])))) = 0
   \<and> result_source (demo_env []) result_without_source (loop_entry (demo_frame 1 [7]) [])
       = (Inr None, loop_entry (demo_frame 1 [7]) [])
   \<and> result_from_json (demo_env []) result_with_source (Some ''src'')
       = Inr (CandidateResult 7 ''h1'' (Some ''src'') [])
   \<and> fst (handle_result (demo_env []) (demo_conn (Finite 6)) result_with_source
             (loop_entry (demo_frame 1 [7]) [])) = Inr ()
   \<and> st_feedback (snd (handle_result (demo_env []) (demo_conn (Finite 6)) result_with_source
             (loop_entry (demo_frame 1 [7]) [])))
       = [(WorkDone 0 (CandidateResult 7 ''h1'' (Some ''src'') []), ''srv'')]
   \<and> p_receive_nonce (st_port (snd (handle_result (demo_env []) (demo_conn (Finite 6))
             result_with_source (loop_entry (demo_frame 1 [7]) [])))) = 3
   \<and> fst (handle_result (demo_env []) (demo_conn (Finite 6)) result_without_source
             (loop_entry (demo_frame 1 [7]) [])) = Inr ()
   \<and> st_feedback (snd (handle_result (demo_env []) (demo_conn (Finite 6)) result_without_source
             (loop_entry (demo_frame 1 [7]) [])))
       = [(WorkDone 0 (CandidateResult 9 ''h2'' None []), ''srv'')]
   \<and> p_receive_nonce (st_port (snd (handle_result (demo_env []) (demo_conn (Finite 6))
             result_without_source (loop_entry (demo_frame 1 [7]) [])))) = 1"
proof -
  let ?E = "demo_env []"
  let ?C = "demo_conn (Finite 6)"
  let ?S = "loop_entry (demo_frame 1 [7]) []"
  have a: "py_eq_True (json_get result_with_source ''has_source'')"
    by (simp add: result_with_source_def json_get_def dict_get_def)
  have b: "\<not> py_eq_True (json_get result_without_source ''has_source'')"
    by (simp add: result_without_source_def json_get_def dict_get_def)
  have e: "e_decompress ?E [7] = Inr [7]" "e_decode ?E [7] = Inr ''src''"
    by (simp_all add: demo_env_def)
  obtain p' where r: "receive (st_port ?S) = (Inr [7], p')"
    using demo_source_frame by (cases "receive (st_port ?S)") auto
  with demo_source_frame have p': "p_receive_nonce p' = 3" by simp
  have wf1: "\<not> has_key result_with_source ''error''
       \<and> json_prop result_with_source ''profiler'' T_dict = Inr (JDict [])
       \<and> profiler_from_json ?E (JDict []) = Inr []
       \<and> json_prop result_with_source ''score'' T_int = Inr (JInt 7)
       \<and> json_prop result_with_source ''hash'' T_str = Inr (JStr ''h1'')"
    by (simp add: result_with_source_def has_key_def json_prop_def dict_get_def
          profiler_from_json_def)
  have wf2: "\<not> has_key result_without_source ''error''
       \<and> json_prop result_without_source ''profiler'' T_dict = Inr (JDict [])
       \<and> profiler_from_json ?E (JDict []) = Inr []
       \<and> json_prop result_without_source ''score'' T_int = Inr (JInt 9)
       \<and> json_prop result_without_source ''hash'' T_str = Inr (JStr ''h2'')"
    by (simp add: result_without_source_def has_key_def json_prop_def dict_get_def
          profiler_from_json_def)
  have i1: "json_prop result_with_source ''permuter'' T_int = Inr (JInt 0)"
    by (simp add: result_with_source_def json_prop_def dict_get_def)
  have i2: "json_prop result_without_source ''permuter'' T_int = Inr (JInt 0)"
    by (simp add: result_without_source_def json_prop_def dict_get_def)
  note T = source_received_iff_has_source[where msg = result_with_source and env = ?E
      and st = ?S and c = ?C and idx = "JInt 0" and pj = "JDict []" and prof = "[]"
      and score = "JInt 7" and hsh = "JStr ''h1''" and source = "Some ''src''"
      and compressed = "[7]" and p' = p' and raw = "[7]" and src = "''src''"]
  note U = source_received_iff_has_source[where msg = result_without_source and env = ?E
      and st = ?S and c = ?C and idx = "JInt 0" and pj = "JDict []" and prof = "[]"
      and score = "JInt 9" and hsh = "JStr ''h2''"]
  from T a demo_source_frame e
  have w: "fst (result_source ?E result_with_source ?S) = Inr (Some ''src'')
   \<and> p_receive_nonce (st_port (snd (result_source ?E result_with_source ?S))) = 3
   \<and> inlen (st_port (snd (result_source ?E result_with_source ?S))) = 0" by simp
  from U b
  have w2: "result_source ?E result_without_source ?S = (Inr None, ?S)" by simp
  from T wf1 have w3: "result_from_json ?E result_with_source (Some ''src'')
       = Inr (CandidateResult (as_int (JInt 7)) (as_str (JStr ''h1'')) (Some ''src'') [])"
    by blast
  from T wf1 i1 a r e have "handle_result ?E ?C result_with_source ?S
       = (Inr (), put ?C (WorkDone (as_int (JInt 0))
             (CandidateResult (as_int (JInt 7)) (as_str (JStr ''h1'')) (Some ''src'') []))
           (?S\<lparr>st_port := p'\<rparr>))"
    by blast
  then have w4: "fst (handle_result ?E ?C result_with_source ?S) = Inr ()
     \<and> st_feedback (snd (handle_result ?E ?C result_with_source ?S))
         = [(WorkDone 0 (CandidateResult 7 ''h1'' (Some ''src'') []), ''srv'')]
     \<and> p_receive_nonce (st_port (snd (handle_result ?E ?C result_with_source ?S))) = 3"
    using p' by (simp add: put_def loop_entry_def demo_conn_def)
  from U wf2 i2 b have "handle_result ?E ?C result_without_source ?S
       = (Inr (), put ?C (WorkDone (as_int (JInt 0))
             (CandidateResult (as_int (JInt 9)) (as_str (JStr ''h2'')) None [])) ?S)"
    by blast
  then have w5: "fst (handle_result ?E ?C result_without_source ?S) = Inr ()
     \<and> st_feedback (snd (handle_result ?E ?C result_without_source ?S))
         = [(WorkDone 0 (CandidateResult 9 ''h2'' None []), ''srv'')]
     \<and> p_receive_nonce (st_port (snd (handle_result ?E ?C result_without_source ?S))) = 1"
    by (simp add: put_def loop_entry_def demo_conn_def Port_def)
  from w w2 w3 w4 w5 show ?thesis by simp
qed

section \<open>Further properties\<close>

text \<open>
  \<open>socket_read_fixed\<close> returns the next \<open>n\<close> bytes of the stream and leaves the rest,
  however \<open>recv\<close> cuts the stream into chunks, and raises \<open>Exception("eof")\<close> when the
  stream ends before \<open>n\<close> bytes; it writes nothing.
\<close>

theorem read_fixed_returns_next_bytes:
  "(n \<le> length (s_in s) \<longrightarrow>
      fst (socket_read_fixed s n []) = Inr (take n (s_in s))
      \<and> s_in (snd (socket_read_fixed s n [])) = drop n (s_in s))
   \<and> (length (s_in s) < n \<longrightarrow> fst (socket_read_fixed s n []) = Inl (Exception ''eof''))
   \<and> s_out (snd (socket_read_fixed s n [])) = s_out s"
  using srf_ok[of n s "[]"] srf_eof[of s n "[]"] srf_out[of s n "[]"] by simp

theorem read_fixed_returns_next_bytes_witness:
  "fst (socket_read_fixed \<lparr>s_in = [1, 2, 3, 4, 5, 6, 7], s_chunks = [2, 1, 9], s_out = []\<rparr> 5 [])
     = Inr [1, 2, 3, 4, 5]
   \<and> s_in (snd (socket_read_fixed
         \<lparr>s_in = [1, 2, 3, 4, 5, 6, 7], s_chunks = [2, 1, 9], s_out = []\<rparr> 5 [])) = [6, 7]
   \<and> fst (socket_read_fixed \<lparr>s_in = [1, 2, 3], s_chunks = [2, 1, 9], s_out = []\<rparr> 5 [])
     = Inl (Exception ''eof'')"
  using read_fixed_returns_next_bytes[of 5
          "\<lparr>s_in = [1, 2, 3, 4, 5, 6, 7], s_chunks = [2, 1, 9], s_out = []\<rparr>"]
        read_fixed_returns_next_bytes[of 5 "\<lparr>s_in = [1, 2, 3], s_chunks = [2, 1, 9], s_out = []\<rparr>"]
  by simp

text \<open>
  The framing and the pairing of the counters are sound: when the sender's send counter
  equals the receiver's receive counter (as for two fresh ports of opposite roles), the
  two share a box that accepts the nonce built from it and decrypts what it encrypted,
  and the receiver's socket delivers what the sender wrote, then \<open>receive\<close> returns the
  message sent, consumes exactly its frame and leaves the two counters equal again.
\<close>

theorem round_trip_when_box_accepts:
  "p_send_nonce a = p_receive_nonce b \<and> 0 \<le> p_send_nonce a \<and> p_send_nonce a < 2 ^ 64
   \<and> p_box a = p_box b
   \<and> box_encrypt (p_box a) m (nonce_of (nat (p_send_nonce a))) = Inr data
   \<and> length data < 2 ^ 64
   \<and> box_decrypt (p_box b) data (nonce_of (nat (p_send_nonce a))) = Inr m
   \<and> s_in (p_sock b) = drop (length (s_out (p_sock a))) (s_out (p_sock (snd (send a m)))) @ later
   \<longrightarrow>
     fst (send a m) = Inr ()
     \<and> s_out (p_sock (snd (send a m))) = s_out (p_sock a) @ be_bytes 8 (length data) @ data
     \<and> fst (receive b) = Inr m
     \<and> s_in (p_sock (snd (receive b))) = later
     \<and> p_send_nonce (snd (send a m)) = p_receive_nonce (snd (receive b))"
proof
  assume h: "p_send_nonce a = p_receive_nonce b \<and> 0 \<le> p_send_nonce a \<and> p_send_nonce a < 2 ^ 64
   \<and> p_box a = p_box b
   \<and> box_encrypt (p_box a) m (nonce_of (nat (p_send_nonce a))) = Inr data
   \<and> length data < 2 ^ 64
   \<and> box_decrypt (p_box b) data (nonce_of (nat (p_send_nonce a))) = Inr m
   \<and> s_in (p_sock b) = drop (length (s_out (p_sock a))) (s_out (p_sock (snd (send a m)))) @ later"
  let ?n = "nonce_of (nat (p_send_nonce a))"
  from h have enc: "box_encrypt (p_box a) m ?n = Inr data"
    and dec: "box_decrypt (p_box b) data ?n = Inr m"
    and eqn: "p_send_nonce a = p_receive_nonce b" by metis+
  have pk: "pack_24xQ (p_send_nonce a) = Inr ?n" using h by (simp add: pack_24xQ_Inr)
  have pkb: "pack_24xQ (p_receive_nonce b) = Inr ?n" using eqn pk by simp
  have "int (length data) < 2 ^ 64" using h
    by (metis of_nat_less_iff of_nat_numeral of_nat_power)
  then have pq: "pack_Q (int (length data)) = Inr (be_bytes 8 (length data))"
    by (simp add: pack_Q_def)
  have s: "send a m = (Inr (), a\<lparr>p_send_nonce := p_send_nonce a + 2,
              p_calls := p_calls a @ [Encrypt m ?n],
              p_sock := sendall (p_sock a) (be_bytes 8 (length data) @ data)\<rparr>)"
    using pk pq enc by (simp add: send_def Let_def)
  then have so: "s_out (p_sock (snd (send a m))) = s_out (p_sock a) @ be_bytes 8 (length data) @ data"
    by (simp add: sendall_def)
  moreover from h have "s_in (p_sock b)
      = drop (length (s_out (p_sock a))) (s_out (p_sock (snd (send a m)))) @ later" by simp
  ultimately have bin: "s_in (p_sock b) = be_bytes 8 (length data) @ data @ later" by simp
  obtain r1 s1 where r1: "socket_read_fixed (p_sock b) 8 [] = (r1, s1)"
    by (cases "socket_read_fixed (p_sock b) 8 []")
  have "8 \<le> length (s_in (p_sock b))" using bin by (simp add: be_bytes_length)
  from srf_ok[OF this, of "[]"] r1 bin
  have v1: "r1 = Inr (be_bytes 8 (length data))" "s_in s1 = data @ later"
    by (simp_all add: be_bytes_length)
  have u: "unpack_Q (be_bytes 8 (length data)) = length data"
    using h by (simp add: unpack_Q_def be_nat_be_bytes)
  obtain r2 s2 where r2: "socket_read_fixed s1 (length data) [] = (r2, s2)"
    by (cases "socket_read_fixed s1 (length data) []")
  have "length data \<le> length (s_in s1)" using v1 by simp
  from srf_ok[OF this, of "[]"] r2 v1
  have v2: "r2 = Inr data" "s_in s2 = later" by simp_all
  have r: "receive b = (Inr m, b\<lparr>p_sock := s2, p_receive_nonce := p_receive_nonce b + 2,
                               p_calls := p_calls b @ [Decrypt data ?n]\<rparr>)"
    using r1 v1 u r2 v2 pkb dec by (simp add: receive_def Let_def)
  from s so r v2 eqn show "fst (send a m) = Inr ()
     \<and> s_out (p_sock (snd (send a m))) = s_out (p_sock a) @ be_bytes 8 (length data) @ data
     \<and> fst (receive b) = Inr m
     \<and> s_in (p_sock (snd (receive b))) = later
     \<and> p_send_nonce (snd (send a m)) = p_receive_nonce (snd (receive b))"
    by simp
qed

lemma demo_round_trip:
  "fst (receive (Port \<lparr>s_in = s_out (p_sock (snd (send (Port idle_sock tag_box True) [7, 8]))),
                       s_chunks = [3, 1], s_out = []\<rparr> tag_box False)) = Inr [7, 8]"
  by code_simp

theorem round_trip_when_box_accepts_witness:
  "fst (send (Port idle_sock tag_box True) [7, 8]) = Inr ()
   \<and> fst (receive (Port \<lparr>s_in = s_out (p_sock (snd (send (Port idle_sock tag_box True) [7, 8]))),
                       s_chunks = [3, 1], s_out = []\<rparr> tag_box False)) = Inr [7, 8]"
proof -
  let ?a = "Port idle_sock tag_box True"
  let ?b = "Port \<lparr>s_in = s_out (p_sock (snd (send ?a [7, 8]))), s_chunks = [3, 1], s_out = []\<rparr>
              tag_box False"
  have "p_send_nonce ?a = p_receive_nonce ?b \<and> 0 \<le> p_send_nonce ?a \<and> p_send_nonce ?a < 2 ^ 64
   \<and> p_box ?a = p_box ?b
   \<and> box_encrypt (p_box ?a) [7, 8] (nonce_of (nat (p_send_nonce ?a))) = Inr (nonce_of 0 @ [7, 8])
   \<and> length (nonce_of 0 @ [7, 8]) < 2 ^ 64
   \<and> box_decrypt (p_box ?b) (nonce_of 0 @ [7, 8]) (nonce_of (nat (p_send_nonce ?a))) = Inr [7, 8]
   \<and> s_in (p_sock ?b)
       = drop (length (s_out (p_sock ?a))) (s_out (p_sock (snd (send ?a [7, 8])))) @ []"
    by (simp add: Port_def tag_box_def idle_sock_def nonce_of_length)
  with round_trip_when_box_accepts[of ?a ?b "[7, 8]" "nonce_of 0 @ [7, 8]" "[]"]
  show ?thesis by blast
qed

lemma run_try_clean:
  assumes "run_try env c tasks = Some (Inr None, evs, so, rest)"
  shows "\<exists>p so0 props st1 st2 st3 f st'.
           Connection_setup env = (Inr p, so0)
           \<and> on_port (Connection_init env c)
                 \<lparr>st_port = p, st_tasks = tasks, st_feedback = [], st_shut_wr = False\<rparr>
               = (Inr props, st1)
           \<and> \<not> float_lt (c_priority c) (min_priority props)
           \<and> on_port (Connection_send_permuters env c) st1 = (Inr (), st2)
           \<and> negotiate_bases env c st2 = (Inr None, st3)
           \<and> main_loop env c (put c NeedMoreWork st3) False = Some (Inr f, st')
           \<and> (\<exists>s1 msg. on_port (receive_json env) s1 = (Inr msg, st')
                  \<and> json_get msg ''type'' = JStr ''finish'')
           \<and> evs = st_feedback st' \<and> so = Some (p_sock (st_port st'))
           \<and> rest = st_tasks st'"
proof -
  obtain x so0 where s: "Connection_setup env = (x, so0)" by (cases "Connection_setup env")
  from assms s obtain p where p: "x = Inr p" by (cases x) (auto simp: run_try_def)
  let ?st = "\<lparr>st_port = p, st_tasks = tasks, st_feedback = [], st_shut_wr = False\<rparr>"
  from assms s p obtain st' where
    cs: "Connection_session env c ?st = Some (Inr None, st')"
    and ev: "evs = st_feedback st'" "so = Some (p_sock (st_port st'))" "rest = st_tasks st'"
    by (auto simp: run_try_def split: option.splits)
  obtain y st1 where i: "on_port (Connection_init env c) ?st = (y, st1)"
    by (cases "on_port (Connection_init env c) ?st")
  from cs i obtain props where y: "y = Inr props"
    by (cases y) (auto simp: Connection_session_def)
  from cs i y have nl: "\<not> float_lt (c_priority c) (min_priority props)"
    by (auto simp: Connection_session_def split: if_splits)
  obtain z st2 where sp: "on_port (Connection_send_permuters env c) st1 = (z, st2)"
    by (cases "on_port (Connection_send_permuters env c) st1")
  from cs i y nl sp have z: "z = Inr ()" and st: "Connection_stream env c st2 = Some (Inr None, st')"
    by (cases z; auto simp: Connection_session_def)+
  obtain w st3 where n: "negotiate_bases env c st2 = (w, st3)"
    by (cases "negotiate_bases env c st2")
  from st n have w: "w = Inr None"
    by (cases w) (auto simp: Connection_stream_def split: option.splits)
  from st n w obtain f where
    ml: "main_loop env c (put c NeedMoreWork st3) False = Some (Inr f, st')"
    by (auto simp: Connection_stream_def split: option.splits sum.splits)
  from main_loop_props[OF ml] have
    fm: "\<exists>s1 msg. on_port (receive_json env) s1 = (Inr msg, st')
                  \<and> json_get msg ''type'' = JStr ''finish''"
    by blast
  from s p i y nl sp z n w ml fm ev show ?thesis by blast
qed

text \<open>
  \<open>Connection.run\<close> for a server object that does carry a nickname. Whenever \<open>run\<close>
  returns, no exception leaves it, and the events it has put on the feedback queue are
  those of the \<open>try\<close> block, none of which is a \<open>Finished\<close>, followed by exactly one
  \<open>Finished\<close>. That event carries no reason exactly when the \<open>try\<close> block ended without
  one, and then this run has passed the handshake, the priority gate and the compile
  step and its main loop has ended at the \<open>break\<close>, on a received message of type
  \<open>finish\<close>, in the state whose events, socket and queue \<open>run\<close> leaves behind. The event
  carries the reason set before a \<open>return\<close> (decline, compile failure), the text
  "disconnected" for an \<open>EOFError\<close> and "error: " followed by the exception's text for
  any other exception. \<open>run\<close> does return when the task queue holds the sentinel.
\<close>

theorem run_puts_one_finished_last:
  "(FinishedTask \<in> set tasks \<longrightarrow> Connection_run env c tasks \<noteq> None)
   \<and> (Connection_run env c tasks = Some out \<longrightarrow>
        o_raised out = None
        \<and> (\<exists>r evs so rest reason.
              run_try env c tasks = Some (r, evs, so, rest)
              \<and> o_feedback out = evs @ [(Finished reason, c_nickname c)]
              \<and> (\<forall>x \<in> set evs. \<not> is_Finished (fst x))
              \<and> (reason = None \<longleftrightarrow> r = Inr None)
              \<and> (r = Inr None \<longrightarrow>
                    (\<exists>p so0 props st1 st2 st3 f st'.
                       Connection_setup env = (Inr p, so0)
                       \<and> on_port (Connection_init env c)
                             \<lparr>st_port = p, st_tasks = tasks, st_feedback = [],
                              st_shut_wr = False\<rparr>
                           = (Inr props, st1)
                       \<and> \<not> float_lt (c_priority c) (min_priority props)
                       \<and> on_port (Connection_send_permuters env c) st1 = (Inr (), st2)
                       \<and> negotiate_bases env c st2 = (Inr None, st3)
                       \<and> main_loop env c (put c NeedMoreWork st3) False = Some (Inr f, st')
                       \<and> (\<exists>s1 msg. on_port (receive_json env) s1 = (Inr msg, st')
                              \<and> json_get msg ''type'' = JStr ''finish'')
                       \<and> evs = st_feedback st' \<and> so = Some (p_sock (st_port st'))
                       \<and> rest = st_tasks st'))
              \<and> (\<forall>why. r = Inr (Some why) \<longrightarrow> reason = Some why)
              \<and> (r = Inl EOFError \<longrightarrow> reason = Some ''disconnected'')
              \<and> (\<forall>e. r = Inl e \<and> e \<noteq> EOFError \<longrightarrow>
                    reason = Some (''error: '' @ e_exception_to_string env e))))"
proof (intro conjI impI)
  assume "FinishedTask \<in> set tasks"
  from run_try_returns[OF this, of env c] show "Connection_run env c tasks \<noteq> None"
    by (auto simp: Connection_run_def split: option.splits)
next
  assume a: "Connection_run env c tasks = Some out"
  then obtain r evs so rest where t: "run_try env c tasks = Some (r, evs, so, rest)"
    and o: "out = run_finally (Inr (c_nickname c)) (run_except env r) evs so rest"
    by (auto simp: Connection_run_def split: option.splits)
  have "\<exists>reason. run_except env r = Inr reason"
    by (cases r) (auto simp: run_except_def)
  then obtain reason where re: "run_except env r = Inr reason" by blast
  from o re show "o_raised out = None" by (simp add: run_finally_def)
  from o re have fb: "o_feedback out = evs @ [(Finished reason, c_nickname c)]"
    by (simp add: run_finally_def)
  from re have rs: "(reason = None \<longleftrightarrow> r = Inr None)
     \<and> (\<forall>why. r = Inr (Some why) \<longrightarrow> reason = Some why)
     \<and> (r = Inl EOFError \<longrightarrow> reason = Some ''disconnected'')
     \<and> (\<forall>e. r = Inl e \<and> e \<noteq> EOFError \<longrightarrow>
                    reason = Some (''error: '' @ e_exception_to_string env e))"
    by (cases r) (auto simp: run_except_def split: if_splits)
  from run_try_props[OF t] have nf: "\<forall>x \<in> set evs. \<not> is_Finished (fst x)" by blast
  have cl: "r = Inr None \<longrightarrow>
                    (\<exists>p so0 props st1 st2 st3 f st'.
                       Connection_setup env = (Inr p, so0)
                       \<and> on_port (Connection_init env c)
                             \<lparr>st_port = p, st_tasks = tasks, st_feedback = [],
                              st_shut_wr = False\<rparr>
                           = (Inr props, st1)
                       \<and> \<not> float_lt (c_priority c) (min_priority props)
                       \<and> on_port (Connection_send_permuters env c) st1 = (Inr (), st2)
                       \<and> negotiate_bases env c st2 = (Inr None, st3)
                       \<and> main_loop env c (put c NeedMoreWork st3) False = Some (Inr f, st')
                       \<and> (\<exists>s1 msg. on_port (receive_json env) s1 = (Inr msg, st')
                              \<and> json_get msg ''type'' = JStr ''finish'')
                       \<and> evs = st_feedback st' \<and> so = Some (p_sock (st_port st'))
                       \<and> rest = st_tasks st')"
    using run_try_clean[of env c tasks evs so rest] t by blast
  show "\<exists>r evs so rest reason.
              run_try env c tasks = Some (r, evs, so, rest)
              \<and> o_feedback out = evs @ [(Finished reason, c_nickname c)]
              \<and> (\<forall>x \<in> set evs. \<not> is_Finished (fst x))
              \<and> (reason = None \<longleftrightarrow> r = Inr None)
              \<and> (r = Inr None \<longrightarrow>
                    (\<exists>p so0 props st1 st2 st3 f st'.
                       Connection_setup env = (Inr p, so0)
                       \<and> on_port (Connection_init env c)
                             \<lparr>st_port = p, st_tasks = tasks, st_feedback = [],
                              st_shut_wr = False\<rparr>
                           = (Inr props, st1)
                       \<and> \<not> float_lt (c_priority c) (min_priority props)
                       \<and> on_port (Connection_send_permuters env c) st1 = (Inr (), st2)
                       \<and> negotiate_bases env c st2 = (Inr None, st3)
                       \<and> main_loop env c (put c NeedMoreWork st3) False = Some (Inr f, st')
                       \<and> (\<exists>s1 msg. on_port (receive_json env) s1 = (Inr msg, st')
                              \<and> json_get msg ''type'' = JStr ''finish'')
                       \<and> evs = st_feedback st' \<and> so = Some (p_sock (st_port st'))
                       \<and> rest = st_tasks st'))
              \<and> (\<forall>why. r = Inr (Some why) \<longrightarrow> reason = Some why)
              \<and> (r = Inl EOFError \<longrightarrow> reason = Some ''disconnected'')
              \<and> (\<forall>e. r = Inl e \<and> e \<noteq> EOFError \<longrightarrow>
                    reason = Some (''error: '' @ e_exception_to_string env e))"
    apply (rule exI[of _ r], rule exI[of _ evs], rule exI[of _ so], rule exI[of _ rest],
           rule exI[of _ reason])
    using t fb nf rs cl by simp
qed

text \<open>
  A whole session against the demo server: two tasks and the sentinel, answered by
  \<open>need_work\<close>, two results and \<open>finish\<close>.
\<close>

lemma demo_clean_run:
  "map_option (\<lambda>out. (o_raised out, o_feedback out, o_closed out, o_tasks out))
     (Connection_run (demo_env demo_stream) (demo_conn (Finite 6))
        [WorkTask 0 1, WorkTask 0 2, FinishedTask])
   = Some (None,
       [(NeedMoreWork, ''srv''), (NeedMoreWork, ''srv''),
        (WorkDone 0 (CandidateResult 7 ''h1'' (Some ''src'') []), ''srv''),
        (WorkDone 0 (CandidateResult 9 ''h2'' None []), ''srv''),
        (Finished None, ''srv'')], True, [])"
  by code_simp

theorem run_puts_one_finished_last_witness:
  "\<exists>out. Connection_run (demo_env demo_stream) (demo_conn (Finite 6))
            [WorkTask 0 1, WorkTask 0 2, FinishedTask] = Some out
     \<and> o_raised out = None
     \<and> o_feedback out =
         [(NeedMoreWork, ''srv''), (NeedMoreWork, ''srv''),
          (WorkDone 0 (CandidateResult 7 ''h1'' (Some ''src'') []), ''srv''),
          (WorkDone 0 (CandidateResult 9 ''h2'' None []), ''srv''),
          (Finished None, ''srv'')]"
proof -
  let ?tasks = "[WorkTask 0 1, WorkTask 0 2, FinishedTask]"
  have "FinishedTask \<in> set ?tasks" by simp
  with run_puts_one_finished_last[of ?tasks "demo_env demo_stream" "demo_conn (Finite 6)"]
  obtain out where o: "Connection_run (demo_env demo_stream) (demo_conn (Finite 6)) ?tasks = Some out"
    by blast
  with demo_clean_run show ?thesis by simp
qed

end
